theory Spec2Isabelle
  imports Main "HOL-Library.Word"
begin

text \<open>
  A model of \<^verbatim>\<open>acq400_hapi/acq400.py\<close>, the host-side proxy of an ACQ400 appliance: the
  status monitor with its two events and its blocking waits, the channel data clients that
  assemble sample arrays from the pieces a socket delivers, and the \<^verbatim>\<open>Acq400\<close> object that
  discovers the site services, reads channels and applies the calibration. Every function
  of the source is a function here, under its name; what the source does to an object is
  returned as the object after the call.
\<close>

section \<open>Python values and errors\<close>

text \<open>
  The exceptions that the modelled functions of \<^verbatim>\<open>acq400.py\<close> can raise.
  A function that can raise returns \<open>error + 'a\<close>, with \<open>Inl\<close> the exception.
  A function that contains a loop which may run forever returns an \<open>option\<close> on top:
  \<open>None\<close> is "the call never returns".
\<close>

datatype error =
  SystemExit | KeyError | ValueError | IndexError | RuntimeError | AttributeError | TypeError |
  ConnectionError

text \<open>Python list indexing \<^verbatim>\<open>xs[i]\<close> for a non-negative constant index.\<close>

definition py_index :: "'a list \<Rightarrow> nat \<Rightarrow> 'a option" where
  "py_index xs i = (if i < length xs then Some (xs ! i) else None)"

section \<open>The status line and its regular expression\<close>

text \<open>
  \<^verbatim>\<open>class SF: STATE = 0; PRE = 1; POST = 2; ELAPSED = 3; DEMUX = 5\<close> and
  \<^verbatim>\<open>class STATE: IDLE = 0; ARM = 1; RUNPRE = 2; RUNPOST = 3; POPROCESS = 4; CLEANUP = 5\<close>.
\<close>

definition SF_STATE :: nat where "SF_STATE = 0"
definition SF_PRE :: nat where "SF_PRE = 1"
definition SF_POST :: nat where "SF_POST = 2"

definition STATE_IDLE :: int where "STATE_IDLE = 0"
definition STATE_ARM :: int where "STATE_ARM = 1"

text \<open>
  \<^verbatim>\<open>st_re = re.compile(r"([0-9]) ([0-9]+) ([0-9]+) ([0-9]+) ([0-9])+")\<close>.
  A run of digits is matched greedily and must be followed by a blank, so no
  backtracking is possible: the run is the maximal one. The last group is repeated,
  so it captures the last digit of the final run.
\<close>

definition is_digit :: "char \<Rightarrow> bool" where
  "is_digit c = (48 \<le> (of_char c :: nat) \<and> (of_char c :: nat) \<le> 57)"

definition digits1 :: "string \<Rightarrow> (string \<times> string) option" where
  "digits1 s = (if takeWhile is_digit s = [] then None
                else Some (takeWhile is_digit s, dropWhile is_digit s))"

text \<open>One or more digits and then a blank: the groups 2, 3 and 4.\<close>

definition digits1_blank :: "string \<Rightarrow> (string \<times> string) option" where
  "digits1_blank s =
     (case digits1 s of
        None \<Rightarrow> None
      | Some (g, r) \<Rightarrow>
          (case r of
             [] \<Rightarrow> None
           | c # r' \<Rightarrow> if c = CHR '' '' then Some (g, r') else None))"

definition st_re_match :: "string \<Rightarrow> string list option" where
  "st_re_match s =
     (case s of
        c # b # r1 \<Rightarrow>
          if is_digit c \<and> b = CHR '' '' then
            (case digits1_blank r1 of
               None \<Rightarrow> None
             | Some (g2, r2) \<Rightarrow>
                 (case digits1_blank r2 of
                    None \<Rightarrow> None
                  | Some (g3, r3) \<Rightarrow>
                      (case digits1_blank r3 of
                         None \<Rightarrow> None
                       | Some (g4, r4) \<Rightarrow>
                           (case digits1 r4 of
                              None \<Rightarrow> None
                            | Some (g5, r5) \<Rightarrow> Some [[c], g2, g3, g4, [last g5]]))))
          else None
      | _ \<Rightarrow> None)"

text \<open>\<^verbatim>\<open>st_re.search(st)\<close>: the leftmost position where the expression matches.\<close>

fun st_re_search :: "string \<Rightarrow> string list option" where
  "st_re_search [] = None"
| "st_re_search (c # cs) =
     (case st_re_match (c # cs) of
        Some g \<Rightarrow> Some g
      | None \<Rightarrow> st_re_search cs)"

text \<open>\<^verbatim>\<open>int(x)\<close> on a string of decimal digits.\<close>

definition int_of_digits :: "string \<Rightarrow> int" where
  "int_of_digits ds = foldl (\<lambda>a c. 10 * a + (int (of_char c) - 48)) 0 ds"

text \<open>
  \<^verbatim>\<open>match = self.st_re.search(st)\<close>, then
  \<^verbatim>\<open>status1 = [int(x) for x in match.groups()]\<close>; \<open>None\<close> when the line does not match.
\<close>

definition parse_status :: "string \<Rightarrow> int list option" where
  "parse_status st = map_option (map int_of_digits) (st_re_search st)"

section \<open>Statusmonitor\<close>

text \<open>
  The monitor thread \<^verbatim>\<open>st_thread\<close> runs \<^verbatim>\<open>st_monitor\<close>. It is alive, or it has
  left through \<^verbatim>\<open>sys.exit(1)\<close>, or an uncaught \<^verbatim>\<open>IndexError\<close> has ended it.
\<close>

datatype thread_state = Alive | Exited | Crashed

text \<open>
  The fields of \<^verbatim>\<open>Statusmonitor\<close> that \<^verbatim>\<open>st_monitor\<close> and \<^verbatim>\<open>wait_event\<close> touch.
  \<open>stopped\<close> and \<open>armed\<close> are the flags of the two \<^verbatim>\<open>threading.Event\<close> objects;
  \<open>sigints\<close> counts the calls \<^verbatim>\<open>os.kill(self.main_pid, signal.SIGINT)\<close>.
\<close>

record statusmonitor =
  quit_requested :: bool
  status :: "int list option"
  stopped :: bool
  armed :: bool
  sigints :: nat
  st_thread :: thread_state

text \<open>
  \<^verbatim>\<open>Statusmonitor.__init__(self, _uut, _status)\<close>: both events start clear and the
  thread is started.
\<close>

definition Statusmonitor_init :: "int list option \<Rightarrow> statusmonitor" where
  "Statusmonitor_init status0 =
     \<lparr> quit_requested = False, status = status0, stopped = False, armed = False,
       sigints = 0, st_thread = Alive \<rparr>"

text \<open>
  The body of the loop of \<^verbatim>\<open>st_monitor\<close> for one polled line \<open>st\<close>. The three
  \<^verbatim>\<open>if\<close> statements run in the order of the source. On a skipped ARM the thread
  leaves through \<^verbatim>\<open>sys.exit(1)\<close> before \<^verbatim>\<open>self.status = status1\<close>. Reading index 0 of
  an empty status list raises \<^verbatim>\<open>IndexError\<close> before any event is touched.
\<close>

definition st_monitor_line :: "statusmonitor \<Rightarrow> string \<Rightarrow> statusmonitor" where
  "st_monitor_line m st =
     (case parse_status st of
        None \<Rightarrow> m
      | Some status1 \<Rightarrow>
          (case status m of
             None \<Rightarrow> m\<lparr>status := Some status1\<rparr>
           | Some status0 \<Rightarrow>
               (case py_index status0 SF_STATE of
                  None \<Rightarrow> m\<lparr>st_thread := Crashed\<rparr>
                | Some s0 \<Rightarrow>
                    (case py_index status1 SF_STATE of
                       None \<Rightarrow> m\<lparr>st_thread := Crashed\<rparr>
                     | Some s1 \<Rightarrow>
                         (let m1 = (if s0 \<noteq> 0 \<and> s1 = 0
                                    then m\<lparr>stopped := True, armed := False\<rparr> else m);
                              m2 = (if s1 = 1
                                    then m1\<lparr>armed := True, stopped := False\<rparr> else m1)
                          in if s0 = 0 \<and> s1 > 1
                             then m2\<lparr>quit_requested := True, sigints := sigints m2 + 1,
                                     st_thread := Exited\<rparr>
                             else m2\<lparr>status := Some status1\<rparr>)))))"

text \<open>
  \<^verbatim>\<open>while self.quit_requested == False:\<close> over the lines that
  \<^verbatim>\<open>self.logclient.poll()\<close> returns one after the other. A thread that has ended
  polls no more. When the list is used up the thread is waiting in \<^verbatim>\<open>poll()\<close>.
\<close>

fun st_monitor :: "statusmonitor \<Rightarrow> string list \<Rightarrow> statusmonitor" where
  "st_monitor m [] = m"
| "st_monitor m (st # sts) =
     (if quit_requested m \<or> st_thread m \<noteq> Alive then m
      else st_monitor (st_monitor_line m st) sts)"

text \<open>The two events of the monitor, and \<^verbatim>\<open>ev.is_set()\<close>, \<^verbatim>\<open>ev.clear()\<close>.\<close>

datatype event = Ev_armed | Ev_stopped

fun is_set :: "event \<Rightarrow> statusmonitor \<Rightarrow> bool" where
  "is_set Ev_armed m = armed m"
| "is_set Ev_stopped m = stopped m"

fun clear :: "event \<Rightarrow> statusmonitor \<Rightarrow> statusmonitor" where
  "clear Ev_armed m = m\<lparr>armed := False\<rparr>"
| "clear Ev_stopped m = m\<lparr>stopped := False\<rparr>"

text \<open>
  \<^verbatim>\<open>wait_event(self, ev, descr)\<close>. The schedule is what the monitor thread does
  meanwhile: its head is the list of lines that the monitor processes before the next
  \<^verbatim>\<open>ev.wait(0.1)\<close> of the caller answers, and once the schedule is used up the
  monitor processes nothing further. The call returns the monitor with the event
  cleared and the rest of the schedule, or raises \<^verbatim>\<open>SystemExit\<close>, or never returns.
  (When the caller is the main thread, the SIGINT that the monitor sends on a skipped ARM
  can end the call with \<^verbatim>\<open>KeyboardInterrupt\<close> before the loop sees the quit request;
  the model follows the loop, which every waiting thread runs.)
\<close>

partial_function (option) wait_event ::
  "event \<Rightarrow> statusmonitor \<Rightarrow> string list list \<Rightarrow> (error + statusmonitor \<times> string list list) option"
where
  "wait_event ev m sched =
     (if is_set ev (st_monitor m (case sched of [] \<Rightarrow> [] | b # _ \<Rightarrow> b))
      then Some (Inr (clear ev (st_monitor m (case sched of [] \<Rightarrow> [] | b # _ \<Rightarrow> b)), tl sched))
      else if quit_requested (st_monitor m (case sched of [] \<Rightarrow> [] | b # _ \<Rightarrow> b))
      then Some (Inl SystemExit)
      else wait_event ev (st_monitor m (case sched of [] \<Rightarrow> [] | b # _ \<Rightarrow> b)) (tl sched))"

declare wait_event.simps [code]

definition wait_armed :: "statusmonitor \<Rightarrow> string list list \<Rightarrow> (error + statusmonitor \<times> string list list) option" where
  "wait_armed m sched = wait_event Ev_armed m sched"

definition wait_stopped :: "statusmonitor \<Rightarrow> string list list \<Rightarrow> (error + statusmonitor \<times> string list list) option" where
  "wait_stopped m sched = wait_event Ev_stopped m sched"

section \<open>Interleavings of the monitor thread and waiting callers\<close>

text \<open>
  The monitor thread and the callers of \<^verbatim>\<open>wait_armed\<close> and \<^verbatim>\<open>wait_stopped\<close> share the
  monitor object. A history of the object is a list of actions: the monitor thread
  polls a line and processes it, or a caller passes once through the loop of
  \<^verbatim>\<open>wait_event\<close> (\<^verbatim>\<open>ev.wait(0.1)\<close> answers, and \<^verbatim>\<open>ev.clear()\<close> follows when the event
  was set). The processing of one line is one action.
\<close>

datatype action = Poll string | Wait event

fun step :: "statusmonitor \<Rightarrow> action \<Rightarrow> statusmonitor" where
  "step m (Poll st) = st_monitor m [st]"
| "step m (Wait ev) = (if is_set ev m then clear ev m else m)"

definition run :: "statusmonitor \<Rightarrow> action list \<Rightarrow> statusmonitor" where
  "run m acts = foldl step m acts"

text \<open>
  The states of the pair of consecutive parsed snapshots that a running monitor compares
  when it polls the line \<open>st\<close>: the state of the stored snapshot and the state of the new
  one. \<open>None\<close> when the thread has ended, when no snapshot is stored, or when the line
  does not parse.
\<close>

definition observes :: "statusmonitor \<Rightarrow> string \<Rightarrow> (int \<times> int) option" where
  "observes m st =
     (if quit_requested m \<or> st_thread m \<noteq> Alive then None
      else case status m of
             None \<Rightarrow> None
           | Some status0 \<Rightarrow>
               (case parse_status st of
                  None \<Rightarrow> None
                | Some status1 \<Rightarrow>
                    (case py_index status0 SF_STATE of
                       None \<Rightarrow> None
                     | Some s0 \<Rightarrow>
                         (case py_index status1 SF_STATE of
                            None \<Rightarrow> None
                          | Some s1 \<Rightarrow> Some (s0, s1)))))"

text \<open>
  The transition rules in the words of the specification: an observed ARMED snapshot
  raises "armed" and clears "stopped"; an observed IDLE snapshot after a snapshot that was
  not IDLE raises "stopped" and clears "armed"; a wait that returns clears its event.
\<close>

fun raises :: "event \<Rightarrow> statusmonitor \<Rightarrow> action \<Rightarrow> bool" where
  "raises Ev_armed m (Poll st) =
     (case observes m st of None \<Rightarrow> False | Some (p, n) \<Rightarrow> n = STATE_ARM)"
| "raises Ev_stopped m (Poll st) =
     (case observes m st of None \<Rightarrow> False | Some (p, n) \<Rightarrow> p \<noteq> STATE_IDLE \<and> n = STATE_IDLE)"
| "raises ev m (Wait ev') = False"

fun clears :: "event \<Rightarrow> statusmonitor \<Rightarrow> action \<Rightarrow> bool" where
  "clears Ev_armed m (Poll st) = raises Ev_stopped m (Poll st)"
| "clears Ev_stopped m (Poll st) = raises Ev_armed m (Poll st)"
| "clears ev m (Wait ev') = (ev = ev')"

text \<open>No action of the history, started in \<open>m\<close>, clears (raises) the event.\<close>

fun uncleared :: "event \<Rightarrow> statusmonitor \<Rightarrow> action list \<Rightarrow> bool" where
  "uncleared ev m [] = True"
| "uncleared ev m (a # acts) = ((\<not> clears ev m a) \<and> uncleared ev (step m a) acts)"

fun unraised :: "event \<Rightarrow> statusmonitor \<Rightarrow> action list \<Rightarrow> bool" where
  "unraised ev m [] = True"
| "unraised ev m (a # acts) = ((\<not> raises ev m a) \<and> unraised ev (step m a) acts)"

section \<open>Sockets and numpy buffers\<close>

text \<open>
  A connected socket, seen from the reader: the pieces of data that the peer has sent and
  that have not been read, in order of arrival; after the last piece the peer has closed
  the connection. \<^verbatim>\<open>sock.recv(bufsize)\<close> returns at most \<open>bufsize\<close> bytes of the first
  piece and leaves the rest of the piece in the socket; on a closed connection it
  returns the empty byte string, every time. A piece is never empty.
\<close>

type_synonym byte = "8 word"
type_synonym sock = "byte list list"

definition recv :: "nat \<Rightarrow> sock \<Rightarrow> byte list \<times> sock" where
  "recv bufsize s =
     (case s of
        [] \<Rightarrow> ([], [])
      | c # cs \<Rightarrow> (take bufsize c, if length c \<le> bufsize then cs else drop bufsize c # cs))"

text \<open>What is left in a socket, as a measure: every \<^verbatim>\<open>recv\<close> of at least one byte makes it smaller.\<close>

definition sock_size :: "sock \<Rightarrow> nat" where
  "sock_size s = length (concat s) + length s"

text \<open>
  \<^verbatim>\<open>np.dtype('i1')\<close>, \<^verbatim>\<open>'i2'\<close>, \<^verbatim>\<open>'i4'\<close> are signed integers of 1, 2 and 4 bytes in the
  byte order of the host.
\<close>

datatype byteorder = LittleEndian | BigEndian

fun le_unsigned :: "byte list \<Rightarrow> int" where
  "le_unsigned [] = 0"
| "le_unsigned (b # bs) = uint b + 256 * le_unsigned bs"

definition le_signed :: "byte list \<Rightarrow> int" where
  "le_signed bs =
     (if 2 * le_unsigned bs < 256 ^ length bs then le_unsigned bs
      else le_unsigned bs - 256 ^ length bs)"

fun item_value :: "byteorder \<Rightarrow> byte list \<Rightarrow> int" where
  "item_value LittleEndian bs = le_signed bs"
| "item_value BigEndian bs = le_signed (rev bs)"

text \<open>
  \<^verbatim>\<open>np.frombuffer(buffer, dtype=_dtype, count=count)\<close> for an item size of \<open>itemsize\<close>
  bytes. A negative count takes the whole buffer, whose size must then be a multiple of
  the item size; otherwise the buffer must hold \<open>count\<close> items and the first \<open>count\<close>
  items are taken. Both failures are \<^verbatim>\<open>ValueError\<close>.
\<close>

definition np_items :: "byteorder \<Rightarrow> byte list \<Rightarrow> nat \<Rightarrow> nat \<Rightarrow> int list" where
  "np_items host buffer itemsize n =
     map (\<lambda>i. item_value host (take itemsize (drop (i * itemsize) buffer))) [0..<n]"

definition np_frombuffer :: "byteorder \<Rightarrow> byte list \<Rightarrow> nat \<Rightarrow> int \<Rightarrow> error + int list" where
  "np_frombuffer host buffer itemsize count =
     (if count < 0 then
        (if length buffer mod itemsize \<noteq> 0 then Inl ValueError
         else Inr (np_items host buffer itemsize (length buffer div itemsize)))
      else
        (if int (length buffer) < count * int itemsize then Inl ValueError
         else Inr (np_items host buffer itemsize (nat count))))"

section \<open>ChannelClient.read and RawClient.read\<close>

text \<open>
  The first loop of \<^verbatim>\<open>ChannelClient.read\<close>:
  \<^verbatim>\<open>while True: buffer = self.sock.recv(maxbuf); if not buffer: return ...; total_buffer += buffer\<close>.
  It gives the accumulated bytes at the point of the \<^verbatim>\<open>return\<close>.
\<close>

partial_function (option) read_to_close ::
  "nat \<Rightarrow> byte list \<Rightarrow> sock \<Rightarrow> (byte list \<times> sock) option"
where
  "read_to_close maxbuf total_buffer s =
     (if fst (recv maxbuf s) = [] then Some (total_buffer, snd (recv maxbuf s))
      else read_to_close maxbuf (total_buffer @ fst (recv maxbuf s)) (snd (recv maxbuf s)))"

declare read_to_close.simps [code]

text \<open>
  The second loop:
  \<^verbatim>\<open>while len(buffer) < ndata*data_size: buffer += self.sock.recv(maxbuf)\<close>.
  It does not look at what \<^verbatim>\<open>recv\<close> returns, so on a closed connection it goes on
  for ever.
\<close>

partial_function (option) read_fill ::
  "nat \<Rightarrow> int \<Rightarrow> byte list \<Rightarrow> sock \<Rightarrow> (byte list \<times> sock) option"
where
  "read_fill maxbuf need buffer s =
     (if int (length buffer) < need
      then read_fill maxbuf need (buffer @ fst (recv maxbuf s)) (snd (recv maxbuf s))
      else Some (buffer, s))"

declare read_fill.simps [code]

text \<open>
  \<^verbatim>\<open>ChannelClient.read(self, ndata, data_size=2, maxbuf=0x400000)\<close> on the socket \<open>s\<close> of
  the client. \<^verbatim>\<open>_dtypes[data_size]\<close> raises \<^verbatim>\<open>KeyError\<close> for a size other than 1, 2
  and 4, before anything is received. The result is the value returned or the exception
  raised, with the socket as the call leaves it; \<open>None\<close> when the call never returns.
\<close>

definition ChannelClient_read ::
  "byteorder \<Rightarrow> int \<Rightarrow> nat \<Rightarrow> nat \<Rightarrow> sock \<Rightarrow> ((error + int list) \<times> sock) option"
where
  "ChannelClient_read host ndata data_size maxbuf s =
     (if data_size \<noteq> 1 \<and> data_size \<noteq> 2 \<and> data_size \<noteq> 4 then Some (Inl KeyError, s)
      else if ndata = 0 \<or> ndata = - 1 then
        (case read_to_close maxbuf (fst (recv maxbuf s)) (snd (recv maxbuf s)) of
           None \<Rightarrow> None
         | Some (total_buffer, s') \<Rightarrow>
             Some (np_frombuffer host total_buffer data_size (- 1), s'))
      else
        (case read_fill maxbuf (ndata * int data_size) (fst (recv maxbuf s)) (snd (recv maxbuf s)) of
           None \<Rightarrow> None
         | Some (buffer, s') \<Rightarrow>
             Some (np_frombuffer host buffer data_size ndata, s')))"

definition default_maxbuf :: nat where
  "default_maxbuf = 0x400000"

text \<open>
  The loop of \<^verbatim>\<open>RawClient.read\<close>:
  \<^verbatim>\<open>while bytestogo > 0: new_buf = self.sock.recv(bytestogo); if not new_buf: break; ...\<close>.
\<close>

partial_function (option) raw_read_loop ::
  "int \<Rightarrow> byte list \<Rightarrow> sock \<Rightarrow> (byte list \<times> sock) option"
where
  "raw_read_loop bytestogo total_buf s =
     (if 0 < bytestogo then
        (if fst (recv (nat bytestogo) s) = [] then Some (total_buf, snd (recv (nat bytestogo) s))
         else raw_read_loop (bytestogo - int (length (fst (recv (nat bytestogo) s))))
                (total_buf @ fst (recv (nat bytestogo) s)) (snd (recv (nat bytestogo) s)))
      else Some (total_buf, s))"

declare raw_read_loop.simps [code]

text \<open>
  \<^verbatim>\<open>RawClient.read(self, nelems, data_size=2, ncols=1, maxbuf=0x400000)\<close>, with the byte
  strings of Python 2 (\<^verbatim>\<open>total_buf = ""\<close>). The item type is \<^verbatim>\<open>'i4'\<close> for a data size
  of 4 and \<^verbatim>\<open>'i2'\<close> for every other size; \<^verbatim>\<open>maxbuf\<close> is not used.
\<close>

definition RawClient_read ::
  "byteorder \<Rightarrow> int \<Rightarrow> int \<Rightarrow> int \<Rightarrow> sock \<Rightarrow> ((error + int list) \<times> sock) option"
where
  "RawClient_read host nelems data_size ncols s =
     (case raw_read_loop ((if nelems \<le> 0 then 0x80000000 else nelems) * data_size * ncols) [] s of
        None \<Rightarrow> None
      | Some (total_buf, s') \<Rightarrow>
          Some (np_frombuffer host total_buf (if data_size = 4 then 4 else 2) (- 1), s'))"

text \<open>
  Modelled from the spec: the sender is the appliance, which is not part of the
  repository. Section 6 of the specification gives the wire format of the data ports:
  little-endian fixed-width signed integers (two's complement), one item after the other.
\<close>

fun encode_le :: "nat \<Rightarrow> int \<Rightarrow> byte list" where
  "encode_le 0 x = []"
| "encode_le (Suc w) x = word_of_int x # encode_le w (x div 256)"

definition encode_stream :: "nat \<Rightarrow> int list \<Rightarrow> byte list" where
  "encode_stream w xs = concat (map (encode_le w) xs)"

text \<open>The values that a signed integer of \<open>w\<close> bytes can hold.\<close>

definition fits :: "nat \<Rightarrow> int \<Rightarrow> bool" where
  "fits w x = (- (2 ^ (8 * w - 1)) \<le> x \<and> x < 2 ^ (8 * w - 1))"

section \<open>Strings from the appliance\<close>

text \<open>\<^verbatim>\<open>s.split(c)\<close> for a separator of one character.\<close>

fun split_chr :: "char \<Rightarrow> string \<Rightarrow> string list" where
  "split_chr sep [] = [[]]"
| "split_chr sep (c # cs) =
     (if c = sep then [] # split_chr sep cs
      else (case split_chr sep cs of
              [] \<Rightarrow> [[c]]
            | w # ws \<Rightarrow> (c # w) # ws))"

text \<open>
  \<^verbatim>\<open>s.split(sep, 1)\<close> for a separator that is not empty: \<open>None\<close> when the separator does
  not occur (the result has one element), else what stands before and after its first
  occurrence.
\<close>

fun split_first :: "string \<Rightarrow> string \<Rightarrow> (string \<times> string) option" where
  "split_first sep [] = None"
| "split_first sep (c # cs) =
     (if take (length sep) (c # cs) = sep then Some ([], drop (length sep) (c # cs))
      else map_option (\<lambda>(before, after). (c # before, after)) (split_first sep cs))"

text \<open>
  \<^verbatim>\<open>int(x)\<close> for a string, in the syntax that Python 2 and 3 share: white space around,
  an optional sign, and decimal digits. Anything else is a \<^verbatim>\<open>ValueError\<close>.
\<close>

definition is_space :: "char \<Rightarrow> bool" where
  "is_space c = (c = CHR '' '' \<or> c = CHR 0x09 \<or> c = CHR 0x0A \<or> c = CHR 0x0B \<or>
                 c = CHR 0x0C \<or> c = CHR 0x0D)"

definition strip :: "string \<Rightarrow> string" where
  "strip s = rev (dropWhile is_space (rev (dropWhile is_space s)))"

definition py_digits :: "string \<Rightarrow> error + int" where
  "py_digits ds =
     (if ds \<noteq> [] \<and> list_all is_digit ds then Inr (int_of_digits ds) else Inl ValueError)"

definition py_int :: "string \<Rightarrow> error + int" where
  "py_int x =
     (case strip x of
        [] \<Rightarrow> Inl ValueError
      | c # r \<Rightarrow>
          if c = CHR ''-'' then map_sum id uminus (py_digits r)
          else if c = CHR ''+'' then py_digits r
          else py_digits (c # r))"

text \<open>\<^verbatim>\<open>[int(x) for x in xs]\<close>: the first failure ends the comprehension.\<close>

fun py_ints :: "string list \<Rightarrow> error + int list" where
  "py_ints [] = Inr []"
| "py_ints (x # xs) =
     (case py_int x of
        Inl e \<Rightarrow> Inl e
      | Inr v \<Rightarrow> (case py_ints xs of Inl e \<Rightarrow> Inl e | Inr vs \<Rightarrow> Inr (v # vs)))"

section \<open>The Acq400 object\<close>

text \<open>
  \<^verbatim>\<open>netclient.Siteclient\<close> is not among the sources. A site client is taken as the
  answers of its site: the value of every knob, by name (\<^verbatim>\<open>svc.NAME\<close>).
\<close>

type_synonym siteclient = "string \<Rightarrow> string"

text \<open>
  The entries of \<^verbatim>\<open>cal_eslo\<close> and \<^verbatim>\<open>cal_eoff\<close>: the integer 0 that \<^verbatim>\<open>__init__\<close> puts at
  index 0, and the strings that \<^verbatim>\<open>fetch_all_calibration\<close> appends.
\<close>

datatype cal_entry = Cal_int int | Cal_str string

text \<open>
  The instance dictionary \<^verbatim>\<open>self.__dict__\<close> of an \<^verbatim>\<open>Acq400\<close>, with the attributes that
  \<^verbatim>\<open>__init__\<close> sets (the compiled expression \<^verbatim>\<open>NL\<close> apart). \<open>statmon\<close> is \<open>None\<close> when
  the attribute was never set (\<^verbatim>\<open>monitor=False\<close>).
\<close>

record acq400 =
  uut :: string
  trace :: int
  save_data :: "string option"
  svc :: "string \<rightharpoonup> siteclient"
  modules :: "int \<rightharpoonup> siteclient"
  mod_count :: int
  cal_eslo :: "cal_entry list"
  cal_eoff :: "cal_entry list"
  mb_clk_min :: int
  awg_site :: int
  sites :: "int list"
  statmon :: "statusmonitor option"

text \<open>
  What a connection attempt meets: it is refused, or it is answered, or nothing comes
  back in the time considered (for a site thread: before its \<^verbatim>\<open>join(10.0)\<close> times out).
\<close>

datatype 'a attempt = Refused | Silent | Connected 'a

text \<open>
  \<^verbatim>\<open>class AcqPorts: TSTAT = 2235; SITE0 = 4220; DATA0 = 53000\<close>.
\<close>

definition AcqPorts_TSTAT :: int where "AcqPorts_TSTAT = 2235"
definition AcqPorts_SITE0 :: int where "AcqPorts_SITE0 = 4220"
definition AcqPorts_DATA0 :: int where "AcqPorts_DATA0 = 53000"

text \<open>
  The appliances on the network, by address and port: what a \<^verbatim>\<open>Siteclient\<close>, a
  \<^verbatim>\<open>Logclient\<close> and a \<^verbatim>\<open>ChannelClient\<close> meet when they connect. A data service sends its
  stream to every new connection.
\<close>

record network =
  site_service :: "string \<Rightarrow> int \<Rightarrow> siteclient attempt"
  status_service :: "string \<Rightarrow> int \<Rightarrow> unit attempt"
  data_service :: "string \<Rightarrow> int \<Rightarrow> sock attempt"

section \<open>Acq400.read\_chan and Acq400.read\_channels\<close>

text \<open>
  \<^verbatim>\<open>self.s0\<close> goes through \<^verbatim>\<open>__getattr__\<close>: \<^verbatim>\<open>self.svc.get("s0")\<close>, and
  \<^verbatim>\<open>AttributeError\<close> when there is none.
\<close>

definition s0_knob :: "acq400 \<Rightarrow> string \<Rightarrow> error + string" where
  "s0_knob d name = (case svc d ''s0'' of None \<Rightarrow> Inl AttributeError | Some s0 \<Rightarrow> Inr (s0 name))"

text \<open>
  \<^verbatim>\<open>self.statmon.status[i]\<close>, as in \<^verbatim>\<open>pre_samples()\<close> and \<^verbatim>\<open>post_samples()\<close>: no monitor
  is an \<^verbatim>\<open>AttributeError\<close>, a status of \<^verbatim>\<open>None\<close> a \<^verbatim>\<open>TypeError\<close>, a short list an
  \<^verbatim>\<open>IndexError\<close>.
\<close>

definition statmon_status :: "acq400 \<Rightarrow> nat \<Rightarrow> error + int" where
  "statmon_status d i =
     (case statmon d of
        None \<Rightarrow> Inl AttributeError
      | Some m \<Rightarrow>
          (case status m of
             None \<Rightarrow> Inl TypeError
           | Some st \<Rightarrow> (case py_index st i of None \<Rightarrow> Inl IndexError | Some v \<Rightarrow> Inr v)))"

definition pre_samples :: "acq400 \<Rightarrow> error + int" where
  "pre_samples d = statmon_status d SF_PRE"

definition post_samples :: "acq400 \<Rightarrow> error + int" where
  "post_samples d = statmon_status d SF_POST"

text \<open>
  \<^verbatim>\<open>read_chan(self, chan, nsam = 0, data_size = None)\<close>. A new \<^verbatim>\<open>ChannelClient\<close> connects
  to the data port of the channel, \<^verbatim>\<open>AcqPorts.DATA0+ch\<close>, and reads. The branch on \<^verbatim>\<open>self.save_data\<close> writes the
  array to a file and returns the same array; files are not modelled.
\<close>

definition read_chan ::
  "network \<Rightarrow> byteorder \<Rightarrow> acq400 \<Rightarrow> int \<Rightarrow> int \<Rightarrow> nat option \<Rightarrow> (error + int list) option"
where
  "read_chan net host d chan nsam data_size =
     (case (if chan \<noteq> 0 \<and> nsam = 0
            then (case pre_samples d of
                    Inl e \<Rightarrow> Inl e
                  | Inr pre \<Rightarrow> (case post_samples d of Inl e \<Rightarrow> Inl e | Inr post \<Rightarrow> Inr (pre + post)))
            else Inr nsam) of
        Inl e \<Rightarrow> Some (Inl e)
      | Inr nsam' \<Rightarrow>
          (case (case data_size of
                   None \<Rightarrow> (case s0_knob d ''data32'' of
                              Inl e \<Rightarrow> Inl e
                            | Inr v \<Rightarrow> Inr (if v = ''1'' then 4 else 2))
                 | Some n \<Rightarrow> Inr n) of
             Inl e \<Rightarrow> Some (Inl e)
           | Inr dsize \<Rightarrow>
               (case data_service net (uut d) (AcqPorts_DATA0 + chan) of
                  Refused \<Rightarrow> Some (Inl ConnectionError)
                | Silent \<Rightarrow> None
                | Connected s \<Rightarrow> map_option fst (ChannelClient_read host nsam' dsize default_maxbuf s))))"

text \<open>\<^verbatim>\<open>nchan(self)\<close>: \<^verbatim>\<open>int(self.s0.NCHAN)\<close>.\<close>

definition nchan :: "acq400 \<Rightarrow> error + int" where
  "nchan d = (case s0_knob d ''NCHAN'' of Inl e \<Rightarrow> Inl e | Inr v \<Rightarrow> py_int v)"

text \<open>
  The argument \<^verbatim>\<open>channels\<close> of \<^verbatim>\<open>read_channels\<close>: the default \<^verbatim>\<open>()\<close>, one integer, or a
  sequence of integers.
\<close>

datatype channels = Ch_default | Ch_int int | Ch_seq "int list"

text \<open>\<^verbatim>\<open>int(self.s0.transient.split("DEMUX=",1)[1][0])\<close>.\<close>

definition demux_state :: "acq400 \<Rightarrow> error + int" where
  "demux_state d =
     (case s0_knob d ''transient'' of
        Inl e \<Rightarrow> Inl e
      | Inr v \<Rightarrow>
          (case split_first ''DEMUX='' v of
             None \<Rightarrow> Inl IndexError
           | Some (before, after) \<Rightarrow>
               (case after of [] \<Rightarrow> Inl IndexError | c # _ \<Rightarrow> py_int [c])))"

text \<open>
  \<^verbatim>\<open>for ch in channels: chx.append(self.read_chan(ch, nsam, data_size=data_size))\<close>:
  one read after the other; the first that raises or never returns ends the loop.
\<close>

fun read_each :: "(int \<Rightarrow> (error + int list) option) \<Rightarrow> int list \<Rightarrow> (error + int list list) option" where
  "read_each rd [] = Some (Inr [])"
| "read_each rd (ch # chs) =
     (case rd ch of
        None \<Rightarrow> None
      | Some (Inl e) \<Rightarrow> Some (Inl e)
      | Some (Inr a) \<Rightarrow>
          (case read_each rd chs of
             None \<Rightarrow> None
           | Some (Inl e) \<Rightarrow> Some (Inl e)
           | Some (Inr as) \<Rightarrow> Some (Inr (a # as))))"

text \<open>
  \<^verbatim>\<open>data.reshape((-1, n))\<close>, \<^verbatim>\<open>data[:, np.array(channels)-1].transpose()\<close> and
  \<^verbatim>\<open>[item for item in data]\<close>. The reshape needs a positive \<open>n\<close> that divides the size
  (\<^verbatim>\<open>ValueError\<close>). An index \<open>ch - 1\<close> selects a column, counted from the end when it is
  negative, and must lie in \<open>[-n, n)\<close> (\<^verbatim>\<open>IndexError\<close>); an empty sequence of channels
  makes an index array of floats, which is an \<^verbatim>\<open>IndexError\<close> as well.
\<close>

fun column_index :: "int \<Rightarrow> int \<Rightarrow> error + nat" where
  "column_index n ch =
     (if ch - 1 < - n \<or> n \<le> ch - 1 then Inl IndexError
      else Inr (nat (if ch - 1 < 0 then ch - 1 + n else ch - 1)))"

fun column_indices :: "int \<Rightarrow> int list \<Rightarrow> error + nat list" where
  "column_indices n [] = Inr []"
| "column_indices n (ch # chs) =
     (case column_index n ch of
        Inl e \<Rightarrow> Inl e
      | Inr c \<Rightarrow> (case column_indices n chs of Inl e \<Rightarrow> Inl e | Inr cs \<Rightarrow> Inr (c # cs)))"

definition column :: "int list \<Rightarrow> nat \<Rightarrow> nat \<Rightarrow> int list" where
  "column data n c = map (\<lambda>r. data ! (r * n + c)) [0..<length data div n]"

definition demultiplex :: "int list \<Rightarrow> int \<Rightarrow> int list \<Rightarrow> error + int list list" where
  "demultiplex data n chs =
     (if n \<le> 0 \<or> int (length data) mod n \<noteq> 0 then Inl ValueError
      else if chs = [] then Inl IndexError
      else (case column_indices n chs of
              Inl e \<Rightarrow> Inl e
            | Inr cs \<Rightarrow> Inr (map (column data (nat n)) cs)))"

text \<open>\<^verbatim>\<open>read_channels(self, channels=(), nsam=0)\<close>, with \<^verbatim>\<open>self.trace\<close> at 0.\<close>

definition read_channels ::
  "network \<Rightarrow> byteorder \<Rightarrow> acq400 \<Rightarrow> channels \<Rightarrow> int \<Rightarrow> (error + int list list) option"
where
  "read_channels net host d channels nsam =
     (case (case channels of
              Ch_default \<Rightarrow> (case nchan d of Inl e \<Rightarrow> Inl e | Inr n \<Rightarrow> Inr (map int [1..<nat (n + 1)]))
            | Ch_int ch \<Rightarrow> Inr [ch]
            | Ch_seq chs \<Rightarrow> Inr chs) of
        Inl e \<Rightarrow> Some (Inl e)
      | Inr chs \<Rightarrow>
          (case s0_knob d ''data32'' of
             Inl e \<Rightarrow> Some (Inl e)
           | Inr v \<Rightarrow>
               (case demux_state d of
                  Inl e \<Rightarrow> Some (Inl e)
                | Inr demux \<Rightarrow>
                    if demux \<noteq> 0 then
                      read_each (\<lambda>ch. read_chan net host d ch nsam (Some (if v = ''1'' then 4 else 2))) chs
                    else
                      (case read_chan net host d 0 nsam (Some (if v = ''1'' then 4 else 2)) of
                         None \<Rightarrow> None
                       | Some (Inl e) \<Rightarrow> Some (Inl e)
                       | Some (Inr data) \<Rightarrow>
                           (case nchan d of
                              Inl e \<Rightarrow> Some (Inl e)
                            | Inr n \<Rightarrow> Some (demultiplex data n chs))))))"

section \<open>Acq400.\_\_init\_\_ and the cache of instances\<close>

text \<open>\<^verbatim>\<open>"%d" % n\<close>: the decimal digits of an integer, with a minus sign when negative.\<close>

fun dec_nat :: "nat \<Rightarrow> string" where
  "dec_nat n =
     (if n < 10 then [char_of (48 + n)]
      else dec_nat (n div 10) @ [char_of (48 + n mod 10)])"

definition dec_int :: "int \<Rightarrow> string" where
  "dec_int i = (if i < 0 then CHR ''-'' # dec_nat (nat (- i)) else dec_nat (nat i))"

text \<open>
  The state of the Python process that \<^verbatim>\<open>Acq400.__init__\<close> touches. An \<^verbatim>\<open>Acq400\<close> object
  has no state but its instance dictionary, and is represented by the reference to this
  dictionary: \<open>dicts\<close> is the store of the instance dictionaries and \<open>next_dict\<close> the next
  free reference. \<open>uuts\<close> is the class attribute \<^verbatim>\<open>Acq400.uuts\<close>, from the address to the
  registered dictionary. \<open>siteclients\<close> lists the \<^verbatim>\<open>Siteclient\<close> objects constructed so far
  (address and port) and \<open>statusmonitors\<close> the \<^verbatim>\<open>Statusmonitor\<close> objects (address).
\<close>

record process =
  uuts :: "string \<rightharpoonup> nat"
  dicts :: "nat \<rightharpoonup> acq400"
  next_dict :: nat
  siteclients :: "(string \<times> int) list"
  statusmonitors :: "string list"

text \<open>
  The attributes that \<^verbatim>\<open>__init__\<close> has set when the site threads start: the defaults,
  \<^verbatim>\<open>self.svc["s0"]\<close> and \<^verbatim>\<open>self.awg_site = 0\<close>.
\<close>

definition new_dict :: "string \<Rightarrow> siteclient \<Rightarrow> acq400" where
  "new_dict a s0 =
     \<lparr> uut = a, trace = 0, save_data = None, svc = [''s0'' \<mapsto> s0], modules = Map.empty,
       mod_count = 0, cal_eslo = [Cal_int 0], cal_eoff = [Cal_int 0], mb_clk_min = 4000000,
       awg_site = 0, sites = [], statmon = None \<rparr>"

text \<open>
  \<^verbatim>\<open>init_site_client(self, site)\<close>, the body of one site thread, on the dictionary and
  the list of site clients. A refused connection ends the thread with its exception, and
  a silent one keeps the thread in the constructor: the dictionary stays as it is.
\<close>

definition init_site_client ::
  "network \<Rightarrow> acq400 \<times> (string \<times> int) list \<Rightarrow> int \<Rightarrow> acq400 \<times> (string \<times> int) list"
where
  "init_site_client net st site =
     (case site_service net (uut (fst st)) (AcqPorts_SITE0 + site) of
        Refused \<Rightarrow> st
      | Silent \<Rightarrow> st
      | Connected c \<Rightarrow>
          ((fst st)\<lparr> svc := (svc (fst st))(CHR ''s'' # dec_int site \<mapsto> c),
                     modules := (modules (fst st))(site \<mapsto> c),
                     awg_site := (if awg_site (fst st) = 0 \<and> take 2 (c ''module_name'') = ''ao''
                                  then site else awg_site (fst st)),
                     mod_count := mod_count (fst st) + 1 \<rparr>,
           snd st @ [(uut (fst st), AcqPorts_SITE0 + site)]))"

text \<open>Whether the site service of a site answers in time.\<close>

definition resolves :: "network \<Rightarrow> string \<Rightarrow> int \<Rightarrow> bool" where
  "resolves net a site =
     (case site_service net a (AcqPorts_SITE0 + site) of
        Refused \<Rightarrow> False | Silent \<Rightarrow> False | Connected c \<Rightarrow> True)"

text \<open>
  \<^verbatim>\<open>int(sm.split("=").pop(0))\<close> for every entry \<open>sm\<close> of the site list, as the loop that
  creates the threads computes it (and \<^verbatim>\<open>self.sites\<close> again later).
\<close>

definition site_numbers :: "string list \<Rightarrow> error + int list" where
  "site_numbers sl =
     py_ints (map (\<lambda>sm. case split_chr CHR ''='' sm of [] \<Rightarrow> [] | w # ws \<Rightarrow> w) sl)"

text \<open>
  The threads are kept in a dictionary under their entries \<open>sm\<close>, so an entry that occurs
  a second time finds the thread of the first; the loop
  \<^verbatim>\<open>for sm in sl: site_enumerators[sm].start()\<close> then starts a thread twice, which is a
  \<^verbatim>\<open>RuntimeError\<close>. \<open>started\<close> is the number of threads started before that.
\<close>

fun started :: "'a list \<Rightarrow> 'a list \<Rightarrow> nat" where
  "started seen [] = 0"
| "started seen (x # xs) = (if x \<in> set seen then 0 else Suc (started (x # seen) xs))"

text \<open>
  \<^verbatim>\<open>Acq400.__init__(self, _uut, monitor=True)\<close>, giving the object or the exception, and
  the process as the call leaves it; \<open>None\<close> when the call does not return because a
  connection of the main thread is never answered. The site threads that complete before
  their \<^verbatim>\<open>join(10.0)\<close> take effect in the order of the site list; what a thread does
  after its join has timed out is not part of the call.
\<close>

definition Acq400_init ::
  "network \<Rightarrow> process \<Rightarrow> string \<Rightarrow> bool \<Rightarrow> ((error + nat) \<times> process) option"
where
  "Acq400_init net p a monitor =
     (case uuts p a of
        Some r \<Rightarrow> Some (Inr r, p)
      | None \<Rightarrow>
          (case site_service net a AcqPorts_SITE0 of
             Refused \<Rightarrow> Some (Inl ConnectionError, p)
           | Silent \<Rightarrow> None
           | Connected s0 \<Rightarrow>
               (case site_numbers (tl (split_chr CHR '','' (s0 ''SITELIST''))) of
                  Inl e \<Rightarrow> Some (Inl e, p\<lparr>siteclients := siteclients p @ [(a, AcqPorts_SITE0)]\<rparr>)
                | Inr nums \<Rightarrow>
                    if \<not> distinct (tl (split_chr CHR '','' (s0 ''SITELIST''))) then
                      Some (Inl RuntimeError,
                            p\<lparr>siteclients :=
                                snd (foldl (init_site_client net)
                                       (new_dict a s0, siteclients p @ [(a, AcqPorts_SITE0)])
                                       (take (started [] (tl (split_chr CHR '','' (s0 ''SITELIST''))))
                                          nums))\<rparr>)
                    else
                      (case foldl (init_site_client net)
                              (new_dict a s0, siteclients p @ [(a, AcqPorts_SITE0)]) nums of
                         (d, clients) \<Rightarrow>
                           (case py_ints (split_chr CHR '' '' (s0 ''state'')) of
                              Inl e \<Rightarrow> Some (Inl e, p\<lparr>siteclients := clients\<rparr>)
                            | Inr status0 \<Rightarrow>
                                if monitor then
                                  (case status_service net a AcqPorts_TSTAT of
                                     Refused \<Rightarrow> Some (Inl ConnectionError, p\<lparr>siteclients := clients\<rparr>)
                                   | Silent \<Rightarrow> None
                                   | Connected u \<Rightarrow>
                                       Some (Inr (next_dict p),
                                             \<lparr> uuts = (uuts p)(a \<mapsto> next_dict p),
                                               dicts = (dicts p)(next_dict p \<mapsto>
                                                 d\<lparr>sites := nums,
                                                    statmon := Some (Statusmonitor_init (Some status0))\<rparr>),
                                               next_dict = Suc (next_dict p),
                                               siteclients = clients,
                                               statusmonitors = statusmonitors p @ [a] \<rparr>))
                                else
                                  Some (Inr (next_dict p),
                                        \<lparr> uuts = (uuts p)(a \<mapsto> next_dict p),
                                          dicts = (dicts p)(next_dict p \<mapsto> d\<lparr>sites := nums\<rparr>),
                                          next_dict = Suc (next_dict p),
                                          siteclients = clients,
                                          statusmonitors = statusmonitors p \<rparr>))))))"

section \<open>Calibration\<close>

text \<open>Python indexing \<^verbatim>\<open>xs[i]\<close> with any integer: a negative index counts from the end.\<close>

definition py_getitem :: "'a list \<Rightarrow> int \<Rightarrow> error + 'a" where
  "py_getitem xs i =
     (if 0 \<le> i \<and> i < int (length xs) then Inr (xs ! nat i)
      else if i < 0 \<and> - int (length xs) \<le> i then Inr (xs ! nat (int (length xs) + i))
      else Inl IndexError)"

text \<open>
  \<^verbatim>\<open>get_aggregator_sites(self)\<close>:
  \<^verbatim>\<open>self.s0.aggregator.split(' ')[1].split('=')[1].split(',')\<close>.
\<close>

definition get_aggregator_sites :: "acq400 \<Rightarrow> error + string list" where
  "get_aggregator_sites d =
     (case s0_knob d ''aggregator'' of
        Inl e \<Rightarrow> Inl e
      | Inr v \<Rightarrow>
          (case py_index (split_chr CHR '' '' v) 1 of
             None \<Rightarrow> Inl IndexError
           | Some field \<Rightarrow>
               (case py_index (split_chr CHR ''='' field) 1 of
                  None \<Rightarrow> Inl IndexError
                | Some names \<Rightarrow> Inr (split_chr CHR '','' names))))"

text \<open>\<^verbatim>\<open>m.AI_CAL_ESLO.split(' ')[3:]\<close>, and the same for \<^verbatim>\<open>AI_CAL_EOFF\<close>.\<close>

definition cal_entries :: "siteclient \<Rightarrow> string \<Rightarrow> cal_entry list" where
  "cal_entries m knob = map Cal_str (drop 3 (split_chr CHR '' '' (m knob)))"

text \<open>
  The loop of \<^verbatim>\<open>fetch_all_calibration\<close> over the aggregator sites that are left. The
  module of a site is looked up when its turn comes, so a site that is not a number
  (\<^verbatim>\<open>ValueError\<close>) or not in \<^verbatim>\<open>self.modules\<close> (\<^verbatim>\<open>KeyError\<close>) ends the loop with the entries of
  the sites before it already appended.
\<close>

fun fetch_sites :: "acq400 \<Rightarrow> string list \<Rightarrow> (error + unit) \<times> acq400" where
  "fetch_sites d [] = (Inr (), d)"
| "fetch_sites d (c # cs) =
     (case py_int c of
        Inl e \<Rightarrow> (Inl e, d)
      | Inr site \<Rightarrow>
          (case modules d site of
             None \<Rightarrow> (Inl KeyError, d)
           | Some m \<Rightarrow>
               fetch_sites
                 (d\<lparr> cal_eslo := cal_eslo d @ cal_entries m ''AI_CAL_ESLO'',
                      cal_eoff := cal_eoff d @ cal_entries m ''AI_CAL_EOFF'' \<rparr>) cs))"

text \<open>\<^verbatim>\<open>fetch_all_calibration(self)\<close>: the exception or \<^verbatim>\<open>None\<close>, and the object after the call.\<close>

definition fetch_all_calibration :: "acq400 \<Rightarrow> (error + unit) \<times> acq400" where
  "fetch_all_calibration d =
     (case get_aggregator_sites d of
        Inl e \<Rightarrow> (Inl e, d)
      | Inr cs \<Rightarrow> fetch_sites d cs)"

text \<open>
  \<^verbatim>\<open>chan2volts(self, chan, raw)\<close>. The floating-point side is left open: \<open>to_float\<close> is
  \<^verbatim>\<open>float(x)\<close> on an entry of a calibration vector, which can raise, and \<open>np_multiply\<close> and
  \<open>np_add\<close> are the two numpy operations on the raw data, whatever they compute.
\<close>

definition chan2volts ::
  "(cal_entry \<Rightarrow> error + 'f) \<Rightarrow> ('r \<Rightarrow> 'f \<Rightarrow> 'v) \<Rightarrow> ('v \<Rightarrow> 'f \<Rightarrow> 'v) \<Rightarrow>
   acq400 \<Rightarrow> int \<Rightarrow> 'r \<Rightarrow> (error + 'v) \<times> acq400"
where
  "chan2volts to_float np_multiply np_add d chan raw =
     (case (if length (cal_eslo d) = 1 then fetch_all_calibration d else (Inr (), d)) of
        (Inl e, d1) \<Rightarrow> (Inl e, d1)
      | (Inr u, d1) \<Rightarrow>
          (case py_getitem (cal_eslo d1) chan of
             Inl e \<Rightarrow> (Inl e, d1)
           | Inr scale \<Rightarrow>
               (case to_float scale of
                  Inl e \<Rightarrow> (Inl e, d1)
                | Inr eslo \<Rightarrow>
                    (case py_getitem (cal_eoff d1) chan of
                       Inl e \<Rightarrow> (Inl e, d1)
                     | Inr offset \<Rightarrow>
                         (case to_float offset of
                            Inl e \<Rightarrow> (Inl e, d1)
                          | Inr eoff \<Rightarrow> (Inr (np_add (np_multiply raw eslo) eoff), d1))))))"

text \<open>
  A caller that calls \<^verbatim>\<open>chan2volts\<close> on the same object for one channel and raw value
  after the other, whatever each call returns or raises: the object after the calls.
\<close>

fun chan2volts_calls ::
  "(cal_entry \<Rightarrow> error + 'f) \<Rightarrow> ('r \<Rightarrow> 'f \<Rightarrow> 'v) \<Rightarrow> ('v \<Rightarrow> 'f \<Rightarrow> 'v) \<Rightarrow>
   acq400 \<Rightarrow> (int \<times> 'r) list \<Rightarrow> acq400"
where
  "chan2volts_calls to_float np_multiply np_add d [] = d"
| "chan2volts_calls to_float np_multiply np_add d (call # calls) =
     chan2volts_calls to_float np_multiply np_add
       (snd (chan2volts to_float np_multiply np_add d (fst call) (snd call))) calls"

text \<open>
  The modules behind the aggregator, in the order of \<^verbatim>\<open>s0.aggregator\<close>: \<open>None\<close> when the
  knob does not parse or names a site that is not in \<^verbatim>\<open>self.modules\<close>.
\<close>

fun site_modules :: "(int \<rightharpoonup> siteclient) \<Rightarrow> string list \<Rightarrow> siteclient list option" where
  "site_modules mods [] = Some []"
| "site_modules mods (c # cs) =
     (case py_int c of
        Inl e \<Rightarrow> None
      | Inr site \<Rightarrow>
          (case mods site of
             None \<Rightarrow> None
           | Some m \<Rightarrow> map_option ((#) m) (site_modules mods cs)))"

definition aggregator_modules :: "acq400 \<Rightarrow> siteclient list option" where
  "aggregator_modules d =
     (case get_aggregator_sites d of
        Inl e \<Rightarrow> None
      | Inr cs \<Rightarrow> site_modules (modules d) cs)"

text \<open>
  The object with the scale and offset entries of the modules \<open>ms\<close> appended to its
  calibration vectors, module after module.
\<close>

definition calibrated :: "acq400 \<Rightarrow> siteclient list \<Rightarrow> acq400" where
  "calibrated d ms =
     d\<lparr> cal_eslo := cal_eslo d @ concat (map (\<lambda>m. cal_entries m ''AI_CAL_ESLO'') ms),
        cal_eoff := cal_eoff d @ concat (map (\<lambda>m. cal_entries m ''AI_CAL_EOFF'') ms) \<rparr>"

section \<open>The status monitor: lemmas\<close>

lemma step_is_set: "is_set ev (step m a) = (raises ev m a \<or> (is_set ev m \<and> \<not> clears ev m a))"
proof (cases a)
  case (Poll st)
  then show ?thesis
    by (cases ev)
       (auto simp: st_monitor_line_def observes_def Let_def STATE_IDLE_def STATE_ARM_def
             split: option.splits if_splits)
next
  case (Wait ev')
  then show ?thesis by (cases ev; cases ev') auto
qed

lemma run_Nil [simp]: "run m [] = m"
  by (simp add: run_def)

lemma run_Cons [simp]: "run m (a # acts) = run (step m a) acts"
  by (simp add: run_def)

lemma run_append: "run m (xs @ ys) = run (run m xs) ys"
  by (simp add: run_def)

lemma st_monitor_ended: "quit_requested m \<or> st_thread m \<noteq> Alive \<Longrightarrow> st_monitor m sts = m"
  by (cases sts) auto

lemma run_Poll_ended:
  "quit_requested m \<or> st_thread m \<noteq> Alive \<Longrightarrow> run m (map Poll sts) = m"
  by (induction sts) auto

lemma st_monitor_run: "st_monitor m sts = run m (map Poll sts)"
proof (induction sts arbitrary: m)
  case Nil
  show ?case by simp
next
  case (Cons st sts)
  show ?case
  proof (cases "quit_requested m \<or> st_thread m \<noteq> Alive")
    case True
    then show ?thesis
      using run_Poll_ended [of m "st # sts"] by (simp add: st_monitor_ended)
  next
    case False
    then show ?thesis by (simp add: Cons.IH)
  qed
qed

lemma st_monitor_append: "st_monitor m (xs @ ys) = st_monitor (st_monitor m xs) ys"
  by (simp add: st_monitor_run run_append)

lemma unraised_append:
  "unraised ev m (xs @ ys) = (unraised ev m xs \<and> unraised ev (run m xs) ys)"
  by (induction xs arbitrary: m) auto

lemma unraised_stays_clear:
  "\<not> is_set ev m \<Longrightarrow> unraised ev m acts \<Longrightarrow> \<not> is_set ev (run m acts)"
  by (induction acts arbitrary: m) (auto simp: step_is_set)

lemma is_set_run:
  "is_set ev (run m acts) \<longleftrightarrow>
     (is_set ev m \<and> uncleared ev m acts) \<or>
     (\<exists>pre a post. acts = pre @ a # post \<and> raises ev (run m pre) a \<and>
        uncleared ev (run m (pre @ [a])) post)"
proof (induction acts arbitrary: m)
  case Nil
  then show ?case by simp
next
  case (Cons b acts)
  have split: "(\<exists>pre a post. b # acts = pre @ a # post \<and> raises ev (run m pre) a \<and>
                  uncleared ev (run m (pre @ [a])) post) \<longleftrightarrow>
               (raises ev m b \<and> uncleared ev (step m b) acts) \<or>
               (\<exists>pre a post. acts = pre @ a # post \<and> raises ev (run (step m b) pre) a \<and>
                  uncleared ev (run (step m b) (pre @ [a])) post)"
    (is "?L \<longleftrightarrow> ?A \<or> ?B")
  proof
    assume ?L
    then obtain pre a post where eq: "b # acts = pre @ a # post"
      and r: "raises ev (run m pre) a" and u: "uncleared ev (run m (pre @ [a])) post"
      by blast
    show "?A \<or> ?B"
    proof (cases pre)
      case Nil
      with eq r u show ?thesis by (simp add: run_append)
    next
      case (Cons c pre')
      with eq r u have "acts = pre' @ a # post" "raises ev (run (step m b) pre') a"
        "uncleared ev (run (step m b) (pre' @ [a])) post"
        by auto
      then show ?thesis by blast
    qed
  next
    assume "?A \<or> ?B"
    then show ?L
    proof
      assume ?A
      then have "b # acts = [] @ b # acts \<and> raises ev (run m []) b \<and>
                 uncleared ev (run m ([] @ [b])) acts"
        by simp
      then show ?L by blast
    next
      assume ?B
      then obtain pre a post where "acts = pre @ a # post"
        "raises ev (run (step m b) pre) a" "uncleared ev (run (step m b) (pre @ [a])) post"
        by blast
      then have "b # acts = (b # pre) @ a # post \<and> raises ev (run m (b # pre)) a \<and>
                 uncleared ev (run m ((b # pre) @ [a])) post"
        by simp
      then show ?L by blast
    qed
  qed
  show ?case
    unfolding split run_Cons Cons.IH step_is_set
    by auto
qed

lemma wait_event_Nil_blocked:
  assumes "wait_event ev m sched = Some y"
  shows "sched = [] \<longrightarrow> is_set ev m \<or> quit_requested m"
  using assms
proof (induction rule: wait_event.raw_induct[rotated 1, consumes 1])
  case (1 wait_event ev m sched y)
  show ?case
  proof
    assume e: "sched = []"
    show "is_set ev m \<or> quit_requested m"
    proof (rule ccontr)
      assume "\<not> (is_set ev m \<or> quit_requested m)"
      with 1(2) e have "wait_event ev m [] = Some y" by simp
      from 1(1) [OF this] \<open>\<not> (is_set ev m \<or> quit_requested m)\<close> show False by simp
    qed
  qed
qed

lemma wait_event_blocked:
  assumes "\<not> is_set ev m" and "unraised ev m (map Poll (concat sched))"
  shows "wait_event ev m sched =
           (if quit_requested (st_monitor m (concat sched)) then Some (Inl SystemExit) else None)"
  using assms
proof (induction sched arbitrary: m)
  case Nil
  show ?case
  proof (cases "quit_requested m")
    case True
    with Nil show ?thesis by (subst wait_event.simps) simp
  next
    case False
    with Nil have "wait_event ev m [] = None"
      using wait_event_Nil_blocked [of ev m "[]"] by (cases "wait_event ev m []") auto
    with False show ?thesis by simp
  qed
next
  case (Cons b sched)
  let ?m1 = "st_monitor m b"
  from Cons.prems have u1: "unraised ev m (map Poll b)"
    and u2: "unraised ev ?m1 (map Poll (concat sched))"
    by (simp_all add: unraised_append st_monitor_run)
  from Cons.prems(1) u1 have clear1: "\<not> is_set ev ?m1"
    by (simp add: st_monitor_run unraised_stays_clear)
  show ?case
  proof (cases "quit_requested ?m1")
    case True
    then have "st_monitor m (concat (b # sched)) = ?m1"
      by (simp add: st_monitor_append st_monitor_ended)
    with True clear1 show ?thesis by (subst wait_event.simps) simp
  next
    case False
    have "wait_event ev m (b # sched) = wait_event ev ?m1 sched"
      using False clear1 by (subst wait_event.simps) simp
    with Cons.IH [OF clear1 u2] show ?thesis
      by (simp add: st_monitor_append)
  qed
qed

lemma wait_event_set:
  "is_set ev m \<Longrightarrow> wait_event ev m ([] # sched) = Some (Inr (clear ev m, sched))"
  by (subst wait_event.simps) simp

lemma step_inv: "\<not> (armed m \<and> stopped m) \<Longrightarrow> \<not> (armed (step m a) \<and> stopped (step m a))"
proof (cases a)
  case (Poll st)
  assume "\<not> (armed m \<and> stopped m)"
  with Poll show ?thesis
    by (auto simp: st_monitor_line_def Let_def split: option.splits if_splits)
next
  case (Wait ev)
  assume "\<not> (armed m \<and> stopped m)"
  with Wait show ?thesis by (cases ev) auto
qed

lemma run_inv: "\<not> (armed m \<and> stopped m) \<Longrightarrow> \<not> (armed (run m acts) \<and> stopped (run m acts))"
proof (induction acts arbitrary: m)
  case Nil
  then show ?case by simp
next
  case (Cons a acts)
  from Cons.prems have "\<not> (armed (step m a) \<and> stopped (step m a))"
    by (rule step_inv)
  then show ?case
    unfolding run_Cons by (rule Cons.IH)
qed


lemma st_re_match_shape:
  "st_re_match s = Some g \<Longrightarrow> \<exists>c g2 g3 g4 d. g = [[c], g2, g3, g4, [d]] \<and> is_digit c"
  by (auto simp: st_re_match_def split: list.splits if_splits option.splits prod.splits)

lemma st_re_search_shape:
  "st_re_search s = Some g \<Longrightarrow> \<exists>c g2 g3 g4 d. g = [[c], g2, g3, g4, [d]] \<and> is_digit c"
proof (induction s)
  case Nil
  then show ?case by simp
next
  case (Cons c cs)
  then show ?case
    by (cases "st_re_match (c # cs)") (auto dest: st_re_match_shape)
qed

lemma int_of_digit: "is_digit c \<Longrightarrow> 0 \<le> int_of_digits [c] \<and> int_of_digits [c] \<le> 9"
  by (auto simp: is_digit_def int_of_digits_def)

lemma parse_status_state:
  assumes "parse_status st = Some status1"
  shows "\<exists>n. py_index status1 SF_STATE = Some n \<and> 0 \<le> n \<and> n \<le> 9"
proof -
  from assms obtain g where g: "st_re_search st = Some g" and s: "status1 = map int_of_digits g"
    by (auto simp: parse_status_def)
  from st_re_search_shape [OF g] obtain c g2 g3 g4 d
    where "g = [[c], g2, g3, g4, [d]]" "is_digit c" by blast
  with s int_of_digit [of c] show ?thesis
    by (simp add: py_index_def SF_STATE_def)
qed

lemma skipped_arm_line:
  assumes "status m = Some status0" "py_index status0 SF_STATE = Some STATE_IDLE"
    and "parse_status st = Some status1" "py_index status1 SF_STATE = Some n"
    and "n \<noteq> STATE_IDLE" "n \<noteq> STATE_ARM"
  shows "st_monitor_line m st =
           m\<lparr>quit_requested := True, sigints := sigints m + 1, st_thread := Exited\<rparr>"
proof -
  from parse_status_state [OF assms(3)] assms(4) have "0 \<le> n" by auto
  with assms(5,6) have "1 < n" by (simp add: STATE_IDLE_def STATE_ARM_def)
  with assms(1-4) show ?thesis
    by (simp add: st_monitor_line_def STATE_IDLE_def)
qed

lemma wait_event_quit:
  "quit_requested m \<Longrightarrow> \<not> is_set ev m \<Longrightarrow> wait_event ev m sched = Some (Inl SystemExit)"
  by (subst wait_event.simps) (simp add: st_monitor_ended)

lemma st_monitor_line_sigints:
  assumes "\<not> quit_requested m" and "sigints m = 0"
  shows "sigints (st_monitor_line m st) = (if quit_requested (st_monitor_line m st) then 1 else 0)"
  using assms
  by (auto simp: st_monitor_line_def Let_def split: option.splits)

lemma st_monitor_sigints:
  assumes "sigints m = (if quit_requested m then 1 else 0)"
  shows "sigints (st_monitor m sts) = (if quit_requested (st_monitor m sts) then 1 else 0)"
  using assms
proof (induction sts arbitrary: m)
  case Nil
  then show ?case by simp
next
  case (Cons st sts)
  show ?case
  proof (cases "quit_requested m \<or> st_thread m \<noteq> Alive")
    case True
    with Cons.prems show ?thesis by simp
  next
    case False
    with Cons.prems have "sigints m = 0" "\<not> quit_requested m" by (simp_all split: if_splits)
    then have "sigints (st_monitor_line m st) =
                 (if quit_requested (st_monitor_line m st) then 1 else 0)"
      by (simp add: st_monitor_line_sigints)
    from Cons.IH [OF this] False show ?thesis by simp
  qed
qed

text \<open>
  C1. The monitor is alive, its stored snapshot is IDLE, and the next polled line parses to
  a snapshot whose state is neither IDLE nor ARMED. Then the run of \<^verbatim>\<open>st_monitor\<close>
  over this line and any further lines ends in \<^verbatim>\<open>quit_requested = True\<close> with exactly one
  more SIGINT sent to the main thread and the monitor thread gone through
  \<^verbatim>\<open>sys.exit(1)\<close>; the further lines are not polled and nothing is polled afterwards; and
  every call of \<^verbatim>\<open>wait_event\<close> whose event was clear before the line raises
  \<^verbatim>\<open>SystemExit\<close> whatever the schedule. Over its whole life, whatever it polls, a monitor
  sends one SIGINT when it has requested the quit and none otherwise.
\<close>

theorem skipped_arm_fatal_once:
  assumes "\<not> quit_requested m" "st_thread m = Alive"
    and "status m = Some status0" "py_index status0 SF_STATE = Some STATE_IDLE"
    and "parse_status st = Some status1" "py_index status1 SF_STATE = Some n"
    and "n \<noteq> STATE_IDLE" "n \<noteq> STATE_ARM"
  shows "st_monitor m (st # sts) =
           m\<lparr>quit_requested := True, sigints := sigints m + 1, st_thread := Exited\<rparr> \<and>
         (\<forall>more. st_monitor (st_monitor m (st # sts)) more = st_monitor m (st # sts)) \<and>
         (\<forall>ev sched. \<not> is_set ev m \<longrightarrow>
            wait_event ev (st_monitor m (st # sts)) sched = Some (Inl SystemExit)) \<and>
         sigints (st_monitor (Statusmonitor_init initial) polls) =
           (if quit_requested (st_monitor (Statusmonitor_init initial) polls) then 1 else 0)"
proof -
  let ?m' = "m\<lparr>quit_requested := True, sigints := sigints m + 1, st_thread := Exited\<rparr>"
  have line: "st_monitor_line m st = ?m'"
    using assms(3-8) by (rule skipped_arm_line)
  have run: "st_monitor m (st # sts) = ?m'"
    using assms(1,2) line by (simp add: st_monitor_ended)
  have ended: "\<forall>more. st_monitor ?m' more = ?m'"
    by (simp add: st_monitor_ended)
  have waits: "\<forall>ev sched. \<not> is_set ev m \<longrightarrow> wait_event ev ?m' sched = Some (Inl SystemExit)"
  proof (intro allI impI)
    fix ev sched
    assume "\<not> is_set ev m"
    then have "\<not> is_set ev ?m'" by (cases ev) simp_all
    then show "wait_event ev ?m' sched = Some (Inl SystemExit)"
      by (simp add: wait_event_quit)
  qed
  have once: "sigints (st_monitor (Statusmonitor_init initial) polls) =
           (if quit_requested (st_monitor (Statusmonitor_init initial) polls) then 1 else 0)"
    by (rule st_monitor_sigints) (simp add: Statusmonitor_init_def)
  from run ended waits once show ?thesis by simp
qed

theorem skipped_arm_fatal_once_witness:
  "st_monitor (Statusmonitor_init (Some [0, 0, 1000, 0, 0])) [''2 0 1000 17 0'', ''3 0 1000 900 0'']
     = \<lparr> quit_requested = True, status = Some [0, 0, 1000, 0, 0], stopped = False,
         armed = False, sigints = 1, st_thread = Exited \<rparr> \<and>
   wait_event Ev_armed
     (st_monitor (Statusmonitor_init (Some [0, 0, 1000, 0, 0])) [''2 0 1000 17 0'', ''3 0 1000 900 0''])
     [[], []] = Some (Inl SystemExit)"
proof -
  let ?m = "Statusmonitor_init (Some [0, 0, 1000, 0, 0])"
  have p: "parse_status ''2 0 1000 17 0'' = Some [2, 0, 1000, 17, 0]"
    by code_simp
  have h: "\<not> quit_requested ?m" "st_thread ?m = Alive" "status ?m = Some [0, 0, 1000, 0, 0]"
    "py_index [0, 0, 1000, 0, 0] SF_STATE = Some STATE_IDLE"
    "py_index [2, 0, 1000, 17, 0] SF_STATE = Some (2::int)"
    "(2::int) \<noteq> STATE_IDLE" "(2::int) \<noteq> STATE_ARM" "\<not> is_set Ev_armed ?m"
    by (simp_all add: Statusmonitor_init_def py_index_def SF_STATE_def STATE_IDLE_def STATE_ARM_def)
  note T = skipped_arm_fatal_once [OF h(1) h(2) h(3) h(4) p h(5) h(6) h(7),
      where sts = "[''3 0 1000 900 0'']" and initial = None and polls = "[]"]
  have eq: "?m\<lparr>quit_requested := True, sigints := sigints ?m + 1, st_thread := Exited\<rparr>
              = \<lparr> quit_requested = True, status = Some [0, 0, 1000, 0, 0], stopped = False,
                  armed = False, sigints = 1, st_thread = Exited \<rparr>"
    by (simp add: Statusmonitor_init_def)
  from T have "st_monitor ?m [''2 0 1000 17 0'', ''3 0 1000 900 0'']
                 = ?m\<lparr>quit_requested := True, sigints := sigints ?m + 1, st_thread := Exited\<rparr>"
    by (rule conjunct1)
  from this eq have r: "st_monitor ?m [''2 0 1000 17 0'', ''3 0 1000 900 0'']
                 = \<lparr> quit_requested = True, status = Some [0, 0, 1000, 0, 0], stopped = False,
                     armed = False, sigints = 1, st_thread = Exited \<rparr>"
    by (rule trans)
  from T h(8) have w: "wait_event Ev_armed
     (st_monitor ?m [''2 0 1000 17 0'', ''3 0 1000 900 0'']) [[], []] = Some (Inl SystemExit)"
    by blast
  from r w show ?thesis by (rule conjI)
qed


lemma wait_event_returns_cleared:
  assumes "wait_event ev m sched = Some y"
  shows "\<forall>m' sched'. y = Inr (m', sched') \<longrightarrow> \<not> is_set ev m'"
  using assms
proof (induction rule: wait_event.raw_induct[rotated 1, consumes 1])
  case (1 wait_event ev m sched y)
  show ?case
  proof (cases "is_set ev (st_monitor m (case sched of [] \<Rightarrow> [] | b # _ \<Rightarrow> b))")
    case True
    with 1(2) show ?thesis by (cases ev) auto
  next
    case False
    with 1 show ?thesis by (auto split: if_splits)
  qed
qed

lemma wait_event_idle:
  "wait_event ev m [] =
     (if is_set ev m then Some (Inr (clear ev m, []))
      else if quit_requested m then Some (Inl SystemExit) else None)"
proof (cases "is_set ev m")
  case True
  then show ?thesis by (subst wait_event.simps) simp
next
  case False
  then show ?thesis using wait_event_blocked [of ev m "[]"] by simp
qed

text \<open>
  C4. For "armed" and for "stopped" alike. After any history of a fresh monitor the event
  is set exactly when some action raised it (an observed ARMED snapshot for "armed", an
  observed IDLE snapshot after one that was not IDLE for "stopped") and no later action
  cleared it. With nothing more polled, \<^verbatim>\<open>wait_event\<close> returns exactly when its event is
  set, and clears it; otherwise it raises \<^verbatim>\<open>SystemExit\<close> after a quit request or never
  returns. And when a first call has returned and the lines polled from then on never raise
  the event, a second call does not return: it stays blocked for ever, or raises
  \<^verbatim>\<open>SystemExit\<close> when the monitor meets a skipped ARM.
\<close>

theorem wait_unblocks_iff_raised_since_clear:
  "(is_set ev (run (Statusmonitor_init status0) acts) \<longleftrightarrow>
      (\<exists>pre a post. acts = pre @ a # post \<and>
         raises ev (run (Statusmonitor_init status0) pre) a \<and>
         uncleared ev (run (Statusmonitor_init status0) (pre @ [a])) post)) \<and>
   wait_event ev m [] =
     (if is_set ev m then Some (Inr (clear ev m, []))
      else if quit_requested m then Some (Inl SystemExit) else None) \<and>
   (wait_event ev m sched = Some (Inr (m', sched')) \<and>
    unraised ev m' (map Poll (concat sched')) \<longrightarrow>
      wait_event ev m' sched' =
        (if quit_requested (st_monitor m' (concat sched')) then Some (Inl SystemExit) else None))"
proof (intro conjI impI)
  have "\<not> is_set ev (Statusmonitor_init status0)"
    by (cases ev) (simp_all add: Statusmonitor_init_def)
  then show "is_set ev (run (Statusmonitor_init status0) acts) \<longleftrightarrow>
      (\<exists>pre a post. acts = pre @ a # post \<and>
         raises ev (run (Statusmonitor_init status0) pre) a \<and>
         uncleared ev (run (Statusmonitor_init status0) (pre @ [a])) post)"
    by (simp add: is_set_run)
next
  show "wait_event ev m [] =
     (if is_set ev m then Some (Inr (clear ev m, []))
      else if quit_requested m then Some (Inl SystemExit) else None)"
    by (rule wait_event_idle)
next
  assume a: "wait_event ev m sched = Some (Inr (m', sched')) \<and>
    unraised ev m' (map Poll (concat sched'))"
  then have "\<not> is_set ev m'"
    using wait_event_returns_cleared [of ev m sched "Inr (m', sched')"] by simp
  with a show "wait_event ev m' sched' =
        (if quit_requested (st_monitor m' (concat sched')) then Some (Inl SystemExit) else None)"
    by (simp add: wait_event_blocked)
qed

theorem wait_unblocks_iff_raised_since_clear_witness:
  "wait_event Ev_armed (Statusmonitor_init (Some [0, 0, 1000, 0, 0]))
     [[''1 0 1000 0 0''], [''2 0 1000 5 0'', ''3 0 1000 9 0'']]
     = Some (Inr (\<lparr> quit_requested = False, status = Some [1, 0, 1000, 0, 0], stopped = False,
                     armed = False, sigints = 0, st_thread = Alive \<rparr>,
                  [[''2 0 1000 5 0'', ''3 0 1000 9 0'']])) \<and>
   unraised Ev_armed
     \<lparr> quit_requested = False, status = Some [1, 0, 1000, 0, 0], stopped = False,
       armed = False, sigints = 0, st_thread = Alive \<rparr>
     (map Poll (concat [[''2 0 1000 5 0'', ''3 0 1000 9 0'']])) \<and>
   wait_event Ev_armed
     \<lparr> quit_requested = False, status = Some [1, 0, 1000, 0, 0], stopped = False,
       armed = False, sigints = 0, st_thread = Alive \<rparr>
     [[''2 0 1000 5 0'', ''3 0 1000 9 0'']] = None"
proof -
  let ?m = "Statusmonitor_init (Some [0, 0, 1000, 0, 0])"
  let ?m' = "\<lparr> quit_requested = False, status = Some [1, 0, 1000, 0, 0], stopped = False,
       armed = False, sigints = 0, st_thread = Alive \<rparr>"
  let ?sched' = "[[''2 0 1000 5 0'', ''3 0 1000 9 0'']]"
  have first: "wait_event Ev_armed ?m [[''1 0 1000 0 0''], [''2 0 1000 5 0'', ''3 0 1000 9 0'']]
                 = Some (Inr (?m', ?sched'))"
    by code_simp
  have quiet: "unraised Ev_armed ?m' (map Poll (concat ?sched'))"
    by code_simp
  have alive: "\<not> quit_requested (st_monitor ?m' (concat ?sched'))"
    by code_simp
  note T = wait_unblocks_iff_raised_since_clear
    [of Ev_armed None "[]" ?m "[[''1 0 1000 0 0''], [''2 0 1000 5 0'', ''3 0 1000 9 0'']]" ?m' ?sched']
  from T first quiet
  have "wait_event Ev_armed ?m' ?sched' =
          (if quit_requested (st_monitor ?m' (concat ?sched')) then Some (Inl SystemExit) else None)"
    by blast
  with alive have blocked: "wait_event Ev_armed ?m' ?sched' = None"
    by (simp only: if_False)
  from first quiet blocked show ?thesis by blast
qed

section \<open>Reading from a socket: lemmas\<close>

lemma recv_concat: "fst (recv n s) @ concat (snd (recv n s)) = concat s"
  by (cases s) (auto simp: recv_def)

lemma recv_smaller: "0 < n \<Longrightarrow> s \<noteq> [] \<Longrightarrow> sock_size (snd (recv n s)) < sock_size s"
  by (cases s) (auto simp: recv_def sock_size_def)

lemma recv_Nil [simp]: "recv n [] = ([], [])"
  by (simp add: recv_def)

lemma recv_nonempty:
  "0 < n \<Longrightarrow> s \<noteq> [] \<Longrightarrow> \<forall>c\<in>set s. c \<noteq> [] \<Longrightarrow>
     fst (recv n s) \<noteq> [] \<and> (\<forall>c\<in>set (snd (recv n s)). c \<noteq> [])"
  by (cases s) (auto simp: recv_def)

lemma read_fill_returns:
  "0 < maxbuf \<Longrightarrow> need \<le> int (length buffer + length (concat s)) \<Longrightarrow>
     \<exists>buf s'. read_fill maxbuf need buffer s = Some (buf, s') \<and>
        buf @ concat s' = buffer @ concat s \<and> need \<le> int (length buf)"
proof (induction s arbitrary: buffer rule: measure_induct_rule [where f = sock_size])
  case (less s)
  show ?case
  proof (cases "int (length buffer) < need")
    case False
    then show ?thesis by (subst read_fill.simps) simp
  next
    case True
    with less.prems(2) have ne: "s \<noteq> []" by auto
    let ?b = "fst (recv maxbuf s)" and ?s1 = "snd (recv maxbuf s)"
    have c: "?b @ concat ?s1 = concat s" by (rule recv_concat)
    then have "length ?b + length (concat ?s1) = length (concat s)"
      by (metis length_append)
    with less.prems(2) have "need \<le> int (length (buffer @ ?b) + length (concat ?s1))"
      by simp
    from less.IH [OF recv_smaller [OF less.prems(1) ne] less.prems(1) this]
    obtain buf s' where r: "read_fill maxbuf need (buffer @ ?b) ?s1 = Some (buf, s')"
      and i: "buf @ concat s' = (buffer @ ?b) @ concat ?s1" and n: "need \<le> int (length buf)"
      by blast
    from i c have "buf @ concat s' = buffer @ concat s" by simp
    moreover have "read_fill maxbuf need buffer s = Some (buf, s')"
      using True r by (subst read_fill.simps) simp
    ultimately show ?thesis using n by blast
  qed
qed

lemma read_fill_Some:
  assumes "read_fill maxbuf need buffer s = Some y"
  shows "fst y @ concat (snd y) = buffer @ concat s \<and> need \<le> int (length (fst y))"
  using assms
proof (induction rule: read_fill.raw_induct[rotated 1, consumes 1])
  case (1 read_fill maxbuf need buffer s y)
  show ?case
  proof (cases "int (length buffer) < need")
    case True
    with 1(2) have "read_fill maxbuf need (buffer @ fst (recv maxbuf s)) (snd (recv maxbuf s)) = Some y"
      by simp
    from 1(1) [OF this] show ?thesis
      by (simp add: recv_concat)
  next
    case False
    with 1(2) show ?thesis by auto
  qed
qed

lemma read_fill_short:
  assumes "int (length buffer + length (concat s)) < need"
  shows "read_fill maxbuf need buffer s = None"
proof (cases "read_fill maxbuf need buffer s")
  case None
  then show ?thesis .
next
  case (Some y)
  from read_fill_Some [OF this] have "need \<le> int (length (fst y) + length (concat (snd y)))"
    and "length (fst y) + length (concat (snd y)) = length buffer + length (concat s)"
    by (auto, metis length_append)
  with assms show ?thesis by simp
qed

lemma read_to_close_returns:
  "0 < maxbuf \<Longrightarrow> \<forall>c\<in>set s. c \<noteq> [] \<Longrightarrow>
     read_to_close maxbuf tot s = Some (tot @ concat s, [])"
proof (induction s arbitrary: tot rule: measure_induct_rule [where f = sock_size])
  case (less s)
  show ?case
  proof (cases "s = []")
    case True
    then show ?thesis by (subst read_to_close.simps) simp
  next
    case False
    let ?b = "fst (recv maxbuf s)" and ?s1 = "snd (recv maxbuf s)"
    from recv_nonempty [OF less.prems(1) False less.prems(2)]
    have b: "?b \<noteq> []" and ne: "\<forall>c\<in>set ?s1. c \<noteq> []" by auto
    from less.IH [OF recv_smaller [OF less.prems(1) False] less.prems(1) ne]
    have "read_to_close maxbuf (tot @ ?b) ?s1 = Some ((tot @ ?b) @ concat ?s1, [])" .
    then have "read_to_close maxbuf (tot @ ?b) ?s1 = Some (tot @ concat s, [])"
      by (simp add: recv_concat)
    with b show ?thesis by (subst read_to_close.simps) simp
  qed
qed

lemma first_recv_to_close:
  assumes "0 < maxbuf" "\<forall>c\<in>set s. c \<noteq> []"
  shows "read_to_close maxbuf (fst (recv maxbuf s)) (snd (recv maxbuf s)) = Some (concat s, [])"
proof (cases "s = []")
  case True
  then show ?thesis by (subst read_to_close.simps) simp
next
  case False
  from recv_nonempty [OF assms(1) False assms(2)]
  have "\<forall>c\<in>set (snd (recv maxbuf s)). c \<noteq> []" by simp
  from read_to_close_returns [OF assms(1) this]
  show ?thesis by (simp add: recv_concat)
qed

lemma length_encode_le [simp]: "length (encode_le w x) = w"
  by (induction w arbitrary: x) auto

lemma le_unsigned_encode_le: "le_unsigned (encode_le w x) = x mod 256 ^ w"
proof (induction w arbitrary: x)
  case 0
  then show ?case by simp
next
  case (Suc w)
  have "uint (word_of_int x :: byte) = x mod 256"
    by (simp add: uint_word_of_int)
  moreover have "x mod (256 * 256 ^ w) = 256 * (x div 256 mod 256 ^ w) + x mod 256"
    using zmod_zmult2_eq [of "256 ^ w" x 256] by simp
  ultimately show ?case by (simp add: Suc.IH)
qed

lemma le_signed_encode_le:
  assumes "0 < w" "fits w x"
  shows "le_signed (encode_le w x) = x"
proof -
  have p: "(256::int) ^ w = 2 * 2 ^ (8 * w - 1)"
  proof -
    have "(256::int) ^ w = 2 ^ (8 * w)" by (simp add: power_mult)
    also have "8 * w = Suc (8 * w - 1)" using assms(1) by simp
    finally show ?thesis by simp
  qed
  from assms(2) have r: "- (2 ^ (8 * w - 1)) \<le> x" "x < 2 ^ (8 * w - 1)"
    by (simp_all add: fits_def)
  show ?thesis
  proof (cases "0 \<le> x")
    case True
    with r p have "x mod 256 ^ w = x" by simp
    with r p show ?thesis by (simp add: le_signed_def le_unsigned_encode_le)
  next
    case False
    have "x mod 256 ^ w = (x + 256 ^ w) mod 256 ^ w" by simp
    also have "\<dots> = x + 256 ^ w"
      using r p False by (intro mod_pos_pos_trivial) simp_all
    finally have "x mod 256 ^ w = x + 256 ^ w" .
    with r p False show ?thesis by (simp add: le_signed_def le_unsigned_encode_le)
  qed
qed

lemma drop_encode_stream:
  "drop (i * w) (encode_stream w xs) = encode_stream w (drop i xs)"
proof (induction xs arbitrary: i)
  case Nil
  then show ?case by (simp add: encode_stream_def)
next
  case (Cons x xs)
  show ?case
  proof (cases i)
    case 0
    then show ?thesis by simp
  next
    case (Suc j)
    with Cons.IH [of j] show ?thesis by (simp add: encode_stream_def)
  qed
qed

lemma take_encode_stream:
  "i < length xs \<Longrightarrow> take w (drop (i * w) (encode_stream w xs)) = encode_le w (xs ! i)"
proof -
  assume "i < length xs"
  then obtain x rest where "drop i xs = x # rest" "x = xs ! i"
    by (metis Cons_nth_drop_Suc)
  then show ?thesis
    by (simp add: drop_encode_stream) (simp add: encode_stream_def)
qed

lemma length_encode_stream [simp]: "length (encode_stream w xs) = length xs * w"
  by (induction xs) (simp_all add: encode_stream_def)

lemma np_items_prefix:
  assumes "n * w \<le> length buf"
  shows "np_items host (buf @ rest) w n = np_items host buf w n"
proof -
  have "take w (drop (i * w) (buf @ rest)) = take w (drop (i * w) buf)" if "i < n" for i
  proof -
    from that have "Suc i \<le> n" by simp
    then have "Suc i * w \<le> n * w" by (rule mult_le_mono1)
    with assms have "i * w + w \<le> length buf" by simp
    then show ?thesis by simp
  qed
  then have "\<And>i. i \<in> set [0..<n] \<Longrightarrow>
      item_value host (take w (drop (i * w) (buf @ rest))) =
      item_value host (take w (drop (i * w) buf))"
    by (simp only: set_upt atLeastLessThan_iff)
  then show ?thesis
    unfolding np_items_def by (rule map_cong [OF refl])
qed

lemma length_np_items [simp]: "length (np_items host buf w n) = n"
  by (simp add: np_items_def)

lemma np_items_encode_stream:
  assumes "0 < w" "\<forall>x\<in>set xs. fits w x"
  shows "np_items LittleEndian (encode_stream w xs) w (length xs) = xs"
proof (rule nth_equalityI)
  show "length (np_items LittleEndian (encode_stream w xs) w (length xs)) = length xs"
    by simp
next
  fix i
  assume "i < length (np_items LittleEndian (encode_stream w xs) w (length xs))"
  then have i: "i < length xs" by simp
  with assms(2) have "fits w (xs ! i)" by simp
  with i assms(1) show "np_items LittleEndian (encode_stream w xs) w (length xs) ! i = xs ! i"
    by (simp add: np_items_def take_encode_stream le_signed_encode_le)
qed

lemma ChannelClient_read_fixed:
  assumes w: "w = 1 \<or> w = 2 \<or> w = 4" and nd: "0 < ndata" and mb: "0 < maxbuf"
    and enough: "ndata * int w \<le> int (length (concat s))"
  shows "\<exists>s'. ChannelClient_read host ndata w maxbuf s =
           Some (Inr (np_items host (concat s) w (nat ndata)), s')"
proof -
  let ?b = "fst (recv maxbuf s)" and ?s1 = "snd (recv maxbuf s)"
  have c: "?b @ concat ?s1 = concat s" by (rule recv_concat)
  then have "length ?b + length (concat ?s1) = length (concat s)"
    by (metis length_append)
  with enough have "ndata * int w \<le> int (length ?b + length (concat ?s1))" by simp
  from read_fill_returns [OF mb this] obtain buf s'
    where r: "read_fill maxbuf (ndata * int w) ?b ?s1 = Some (buf, s')"
      and i: "buf @ concat s' = ?b @ concat ?s1" and n: "ndata * int w \<le> int (length buf)"
    by blast
  from n nd have "int (nat ndata * w) \<le> int (length buf)" by simp
  then have "nat ndata * w \<le> length buf" by (simp only: of_nat_le_iff)
  then have "np_items host (buf @ concat s') w (nat ndata) = np_items host buf w (nat ndata)"
    by (rule np_items_prefix)
  with i c have "np_items host buf w (nat ndata) = np_items host (concat s) w (nat ndata)"
    by simp
  with n nd have "np_frombuffer host buf w ndata = Inr (np_items host (concat s) w (nat ndata))"
    by (simp add: np_frombuffer_def)
  with r w nd show ?thesis
    by (auto simp: ChannelClient_read_def)
qed

lemma ChannelClient_read_fixed_Some:
  assumes w: "w = 1 \<or> w = 2 \<or> w = 4" and nd: "0 < ndata"
    and ret: "ChannelClient_read host ndata w maxbuf s = Some (r, s')"
  shows "ndata * int w \<le> int (length (concat s)) \<and>
         r = Inr (np_items host (concat s) w (nat ndata))"
proof -
  let ?b = "fst (recv maxbuf s)" and ?s1 = "snd (recv maxbuf s)"
  from ret w nd obtain buf where r: "read_fill maxbuf (ndata * int w) ?b ?s1 = Some (buf, s')"
    and res: "r = np_frombuffer host buf w ndata"
    by (auto simp: ChannelClient_read_def split: option.splits)
  from read_fill_Some [OF r] have i: "buf @ concat s' = concat s"
    and n: "ndata * int w \<le> int (length buf)"
    by (simp_all add: recv_concat)
  from i have "length buf + length (concat s') = length (concat s)"
    by (metis length_append)
  with n have enough: "ndata * int w \<le> int (length (concat s))" by simp
  from n nd have "int (nat ndata * w) \<le> int (length buf)" by simp
  then have "nat ndata * w \<le> length buf" by (simp only: of_nat_le_iff)
  then have "np_items host (buf @ concat s') w (nat ndata) = np_items host buf w (nat ndata)"
    by (rule np_items_prefix)
  with i have "np_items host buf w (nat ndata) = np_items host (concat s) w (nat ndata)"
    by simp
  with n nd res have "r = Inr (np_items host (concat s) w (nat ndata))"
    by (simp add: np_frombuffer_def)
  with enough show ?thesis by simp
qed

lemma ChannelClient_read_to_close:
  assumes w: "w = 1 \<or> w = 2 \<or> w = 4" and nd: "ndata = 0 \<or> ndata = - 1" and mb: "0 < maxbuf"
    and ne: "\<forall>c\<in>set s. c \<noteq> []"
  shows "ChannelClient_read host ndata w maxbuf s =
           Some (np_frombuffer host (concat s) w (- 1), [])"
  using w nd first_recv_to_close [OF mb ne]
  by (auto simp: ChannelClient_read_def)

text \<open>
  C2. The items \<open>xs\<close> fit the width \<open>w\<close> of 1, 2 or 4 bytes, and the socket holds their
  encoding cut into non-empty pieces in any way. Then \<^verbatim>\<open>read(len(xs), w)\<close> on a
  little-endian host returns \<open>xs\<close>, whatever the pieces and whatever the positive
  \<^verbatim>\<open>maxbuf\<close>.
\<close>

theorem channel_read_roundtrip:
  assumes "w = 1 \<or> w = 2 \<or> w = 4" and "\<forall>x\<in>set xs. fits w x" and "0 < maxbuf"
    and "\<forall>c\<in>set s. c \<noteq> []" and "concat s = encode_stream w xs"
  shows "\<exists>s'. ChannelClient_read LittleEndian (int (length xs)) w maxbuf s = Some (Inr xs, s')"
proof (cases "xs = []")
  case True
  with assms(5) have "concat s = []" by (simp add: encode_stream_def)
  with True assms(1) ChannelClient_read_to_close [OF assms(1) _ assms(3) assms(4), of 0 LittleEndian]
  show ?thesis
    by (auto simp: np_frombuffer_def np_items_def)
next
  case False
  then have pos: "0 < int (length xs)" by simp
  from assms(1) have w0: "0 < w" by auto
  have "int (length xs) * int w \<le> int (length (concat s))"
    by (simp add: assms(5))
  from ChannelClient_read_fixed [OF assms(1) pos assms(3) this, of LittleEndian]
  show ?thesis
    by (simp add: assms(5) np_items_encode_stream [OF w0 assms(2)])
qed


text \<open>
  C6, as amended. For a count of 0 or -1 and a width of 1, 2 or 4, \<^verbatim>\<open>ChannelClient.read\<close>
  receives until the connection is closed and decodes everything that was delivered, when
  that is a whole number of items; the result depends on the bytes only, not on the
  pieces, and has as many items as the byte count divided by the width. A byte count that
  is not a multiple of the width ends in the \<^verbatim>\<open>ValueError\<close> of \<^verbatim>\<open>np.frombuffer\<close>.
\<close>

theorem read_until_close:
  assumes "w = 1 \<or> w = 2 \<or> w = 4" and "ndata = 0 \<or> ndata = - 1" and "0 < maxbuf"
    and "\<forall>c\<in>set s. c \<noteq> []"
  shows "ChannelClient_read host ndata w maxbuf s =
           Some (if length (concat s) mod w = 0
                 then Inr (np_items host (concat s) w (length (concat s) div w))
                 else Inl ValueError, []) \<and>
         length (np_items host (concat s) w (length (concat s) div w)) = length (concat s) div w"
  using ChannelClient_read_to_close [OF assms]
  by (simp add: np_frombuffer_def)

lemma recv_whole: "length c \<le> n \<Longrightarrow> recv n (c # cs) = (c, cs)"
  by (simp add: recv_def)

lemma default_maxbuf_ge: "n \<le> 4194304 \<Longrightarrow> n \<le> default_maxbuf"
  by (simp add: default_maxbuf_def)


text \<open>
  A count of -2 takes neither loop: the call returns the items of the first \<^verbatim>\<open>recv\<close> and
  leaves the second piece in the socket, where the whole stream holds two items. And
  with a count of 0, three bytes at a width of 2 end in \<^verbatim>\<open>ValueError\<close>.
\<close>

theorem read_nonpositive_count_differs:
  "ChannelClient_read LittleEndian (- 2) 2 default_maxbuf [[1, 0], [2, 0]]
     = Some (Inr [1], [[2, 0]]) \<and>
   np_items LittleEndian (concat [[1, 0], [2, 0]]) 2 (length (concat [[1, 0], [2, 0 :: byte]]) div 2)
     = [1, 2] \<and>
   ChannelClient_read LittleEndian 0 2 default_maxbuf [[1, 0, 2]] = Some (Inl ValueError, [])"
proof -
  have r: "recv default_maxbuf [[1, 0], [2, 0]] = ([1, 0], [[2, 0]])"
    by (rule recv_whole) (simp add: default_maxbuf_ge)
  have f: "read_fill default_maxbuf (- 4) [1, 0] [[2, 0]] = Some ([1, 0], [[2, 0]])"
    by (subst read_fill.simps) simp
  have n: "np_frombuffer LittleEndian [1, 0] 2 (- 2) = Inr [1]"
    by (simp add: np_frombuffer_def np_items_def le_signed_def)
  have e: "np_items LittleEndian (concat [[1, 0], [2, 0]]) 2
             (length (concat [[1, 0], [2, 0 :: byte]]) div 2) = [1, 2]"
    by code_simp
  have a: "ChannelClient_read LittleEndian (- 2) 2 default_maxbuf [[1, 0], [2, 0]]
          = Some (Inr [1], [[2, 0]])"
    by (simp add: ChannelClient_read_def r f n)
  have "ChannelClient_read LittleEndian 0 2 default_maxbuf [[1, 0, 2]] =
          Some (np_frombuffer LittleEndian (concat [[1, 0, 2]]) 2 (- 1), [])"
    by (rule ChannelClient_read_to_close) (simp_all add: default_maxbuf_def)
  then have o: "ChannelClient_read LittleEndian 0 2 default_maxbuf [[1, 0, 2]] =
          Some (Inl ValueError, [])"
    by (simp add: np_frombuffer_def)
  from a e o show ?thesis by (intro conjI)
qed

theorem channel_read_roundtrip_witness:
  "\<exists>s'. ChannelClient_read LittleEndian 3 2 default_maxbuf [[254], [255, 44, 1], [7, 0]]
          = Some (Inr [- 2, 300, 7], s')"
proof -
  have e: "concat [[254], [255, 44, 1], [7, 0 :: byte]] = encode_stream 2 [- 2, 300, 7]"
    by code_simp
  have h: "(2::nat) = 1 \<or> (2::nat) = 2 \<or> (2::nat) = 4" "\<forall>x\<in>set [- 2, 300, 7]. fits 2 x"
    "0 < default_maxbuf" "\<forall>c\<in>set [[254], [255, 44, 1], [7, 0 :: byte]]. c \<noteq> []"
    by (simp_all add: fits_def default_maxbuf_def)
  from channel_read_roundtrip [OF h e] show ?thesis by simp
qed


theorem read_until_close_witness:
  "ChannelClient_read LittleEndian 0 2 default_maxbuf [[1, 0, 2], [0]] = Some (Inr [1, 2], [])"
proof -
  have h: "(2::nat) = 1 \<or> (2::nat) = 2 \<or> (2::nat) = 4" "(0::int) = 0 \<or> (0::int) = - 1"
    "0 < default_maxbuf" "\<forall>c\<in>set [[1, 0, 2], [0 :: byte]]. c \<noteq> []"
    by (simp_all add: default_maxbuf_def)
  have v: "np_items LittleEndian (concat [[1, 0, 2], [0]]) 2
             (length (concat [[1, 0, 2], [0 :: byte]]) div 2) = [1, 2]"
    by code_simp
  have m: "length (concat [[1, 0, 2], [0 :: byte]]) mod 2 = 0" by simp
  from read_until_close [OF h, of LittleEndian]
  have "ChannelClient_read LittleEndian 0 2 default_maxbuf [[1, 0, 2], [0]] =
           Some (if length (concat [[1, 0, 2], [0 :: byte]]) mod 2 = 0
                 then Inr (np_items LittleEndian (concat [[1, 0, 2], [0]]) 2
                        (length (concat [[1, 0, 2], [0 :: byte]]) div 2))
                 else Inl ValueError, [])"
    by (rule conjunct1)
  then show ?thesis by (simp only: v m if_True refl simp_thms)
qed

text \<open>
  \<^verbatim>\<open>RawClient.read\<close> with \<^verbatim>\<open>nelems <= 0\<close> reads to the close as well, as long as the
  stream is no longer than the 0x80000000 items that stand for infinity.
\<close>

lemma raw_read_loop_to_close:
  "\<forall>c\<in>set s. c \<noteq> [] \<Longrightarrow> int (length (concat s)) \<le> bytestogo \<Longrightarrow>
     raw_read_loop bytestogo tot s = Some (tot @ concat s, [])"
proof (induction s arbitrary: tot bytestogo)
  case Nil
  then show ?case by (subst raw_read_loop.simps) simp
next
  case (Cons c cs)
  from Cons.prems have c: "c \<noteq> []" and le: "length c \<le> nat bytestogo" and pos: "0 < bytestogo"
    by (auto, cases c, auto)
  from le have r: "recv (nat bytestogo) (c # cs) = (c, cs)" by (rule recv_whole)
  from Cons.prems have "int (length (concat cs)) \<le> bytestogo - int (length c)" by simp
  with Cons.IH [of "bytestogo - int (length c)" "tot @ c"] Cons.prems(1)
  have "raw_read_loop (bytestogo - int (length c)) (tot @ c) cs = Some ((tot @ c) @ concat cs, [])"
    by simp
  with c pos r show ?case by (subst raw_read_loop.simps) simp
qed

lemma RawClient_read_to_close:
  assumes "nelems \<le> 0" and "\<forall>c\<in>set s. c \<noteq> []"
    and "int (length (concat s)) \<le> 0x80000000 * data_size * ncols"
  shows "RawClient_read host nelems data_size ncols s =
           Some (np_frombuffer host (concat s) (if data_size = 4 then 4 else 2) (- 1), [])"
  using assms(1) raw_read_loop_to_close [OF assms(2) assms(3), of "[]"]
  by (simp add: RawClient_read_def)

section \<open>Reading channels: lemmas\<close>

lemma read_each_all:
  "\<forall>ch\<in>set chs. rd ch = Some (Inr (f ch)) \<Longrightarrow> read_each rd chs = Some (Inr (map f chs))"
  by (induction chs) simp_all

lemma column_indices_in_range:
  "\<forall>ch\<in>set chs. 1 \<le> ch \<and> ch \<le> n \<Longrightarrow>
     column_indices n chs = Inr (map (\<lambda>ch. nat (ch - 1)) chs)"
  by (induction chs) auto

lemma demultiplex_in_range:
  assumes "0 < n" and "length data = rows * nat n" and "chs \<noteq> []"
    and "\<forall>ch\<in>set chs. 1 \<le> ch \<and> ch \<le> n"
  shows "demultiplex data n chs =
           Inr (map (\<lambda>ch. map (\<lambda>r. data ! (r * nat n + nat (ch - 1))) [0..<rows]) chs)"
proof -
  from assms(1,2) have m: "int (length data) mod n = 0"
    by (metis int_nat_eq mod_mult_self2_is_0 of_nat_mult order_less_imp_le)
  from assms(1,2) have r: "length data div nat n = rows" by simp
  from assms(1,3) m column_indices_in_range [OF assms(4)] show ?thesis
    by (simp add: demultiplex_def column_def r comp_def)
qed

lemma read_chan_encoded:
  assumes "0 < nsam" and "w = 1 \<or> w = 2 \<or> w = 4"
    and "data_service net (uut d) (AcqPorts_DATA0 + ch) = Connected p"
    and "\<forall>c\<in>set p. c \<noteq> []" and "concat p = encode_stream w xs"
    and "int (length xs) = nsam" and "\<forall>x\<in>set xs. fits w x"
  shows "read_chan net LittleEndian d ch nsam (Some w) = Some (Inr xs)"
proof -
  from assms(2) have w0: "0 < w" by auto
  have mb: "0 < default_maxbuf" by (simp add: default_maxbuf_def)
  have "nsam * int w \<le> int (length (concat p))"
    using assms(5,6) by simp
  from ChannelClient_read_fixed [OF assms(2) assms(1) mb this, of LittleEndian]
  obtain s' where "ChannelClient_read LittleEndian nsam w default_maxbuf p =
      Some (Inr (np_items LittleEndian (concat p) w (nat nsam)), s')"
    by blast
  moreover have "np_items LittleEndian (concat p) w (nat nsam) = xs"
    using np_items_encode_stream [OF w0 assms(7)] assms(5,6) by auto
  ultimately show ?thesis
    using assms(1,3) by (simp add: read_chan_def)
qed

lemma read_chan_port:
  assumes "nsam \<noteq> 0" and "data_service net (uut d) (AcqPorts_DATA0 + ch) = Connected p"
  shows "read_chan net host d ch nsam (Some w) =
           map_option fst (ChannelClient_read host nsam w default_maxbuf p)"
  using assms by (simp add: read_chan_def)



text \<open>
  The scenario of the specification: two channels, a width of 2, demux on, 100 samples
  each.
\<close>

lemma read_channels_two_channels_100:
  assumes "svc d ''s0'' = Some s0" and "s0 ''data32'' \<noteq> ''1''" and "demux_state d = Inr 1"
    and "data_service net (uut d) (AcqPorts_DATA0 + 1) = Connected p1"
    and "data_service net (uut d) (AcqPorts_DATA0 + 2) = Connected p2"
    and "\<forall>c\<in>set p1. c \<noteq> []" and "\<forall>c\<in>set p2. c \<noteq> []"
    and "concat p1 = encode_stream 2 xs1" and "concat p2 = encode_stream 2 xs2"
    and "length xs1 = 100" and "length xs2 = 100"
    and "\<forall>x\<in>set xs1. fits 2 x" and "\<forall>x\<in>set xs2. fits 2 x"
  shows "read_channels net LittleEndian d (Ch_seq [1, 2]) 100 = Some (Inr [xs1, xs2])"
proof -
  have w: "(2::nat) = 1 \<or> (2::nat) = 2 \<or> (2::nat) = 4" by simp
  have r1: "read_chan net LittleEndian d 1 100 (Some 2) = Some (Inr xs1)"
    using assms(4,6,8,10,12) by (intro read_chan_encoded [OF _ w]) simp_all
  have r2: "read_chan net LittleEndian d 2 100 (Some 2) = Some (Inr xs2)"
    using assms(5,7,9,11,13) by (intro read_chan_encoded [OF _ w]) simp_all
  from assms(1,2,3) r1 r2 show ?thesis
    by (simp add: read_channels_def s0_knob_def)
qed

section \<open>Opening a device: lemmas\<close>

lemma init_site_client_keeps:
  "uut (fst (init_site_client net st n)) = uut (fst st)"
  "statmon (fst (init_site_client net st n)) = statmon (fst st)"
  "cal_eslo (fst (init_site_client net st n)) = cal_eslo (fst st)"
  "cal_eoff (fst (init_site_client net st n)) = cal_eoff (fst st)"
  "svc (fst st) ''s0'' \<noteq> None \<Longrightarrow> svc (fst (init_site_client net st n)) ''s0'' \<noteq> None"
  by (simp_all add: init_site_client_def split: attempt.splits)

lemma init_site_client_modules:
  "dom (modules (fst (init_site_client net st n))) =
     dom (modules (fst st)) \<union> (if resolves net (uut (fst st)) n then {n} else {})"
  "mod_count (fst (init_site_client net st n)) =
     mod_count (fst st) + (if resolves net (uut (fst st)) n then 1 else 0)"
  by (auto simp: init_site_client_def resolves_def split: attempt.splits)

lemma fold_sites_keeps:
  "uut (fst (foldl (init_site_client net) st nums)) = uut (fst st) \<and>
   statmon (fst (foldl (init_site_client net) st nums)) = statmon (fst st) \<and>
   cal_eslo (fst (foldl (init_site_client net) st nums)) = cal_eslo (fst st) \<and>
   cal_eoff (fst (foldl (init_site_client net) st nums)) = cal_eoff (fst st) \<and>
   (svc (fst st) ''s0'' \<noteq> None \<longrightarrow> svc (fst (foldl (init_site_client net) st nums)) ''s0'' \<noteq> None)"
proof (induction nums arbitrary: st)
  case Nil
  then show ?case by simp
next
  case (Cons n nums)
  from Cons.IH [of "init_site_client net st n"] init_site_client_keeps(5) [of st net n]
  show ?case
    by (simp add: init_site_client_keeps(1-4))
qed

lemma fold_sites_modules:
  "dom (modules (fst (foldl (init_site_client net) st nums))) =
     dom (modules (fst st)) \<union> {n \<in> set nums. resolves net (uut (fst st)) n} \<and>
   mod_count (fst (foldl (init_site_client net) st nums)) =
     mod_count (fst st) + int (length (filter (resolves net (uut (fst st))) nums))"
proof (induction nums arbitrary: st)
  case Nil
  then show ?case by simp
next
  case (Cons n nums)
  show ?case
    unfolding foldl_Cons
    by (simp add: Cons.IH init_site_client_keeps init_site_client_modules) auto
qed

lemma fold_sites_clients:
  "\<exists>more. snd (foldl (init_site_client net) st nums) = snd st @ more"
proof (induction nums arbitrary: st)
  case Nil
  then show ?case by simp
next
  case (Cons n nums)
  have "\<exists>m1. snd (init_site_client net st n) = snd st @ m1"
    by (simp add: init_site_client_def split: attempt.splits)
  with Cons.IH [of "init_site_client net st n"] show ?case
    by auto
qed

lemma Acq400_init_fresh:
  assumes "uuts p a = None"
    and "site_service net a AcqPorts_SITE0 = Connected s0"
    and "distinct (tl (split_chr CHR '','' (s0 ''SITELIST'')))"
    and "site_numbers (tl (split_chr CHR '','' (s0 ''SITELIST''))) = Inr nums"
    and "py_ints (split_chr CHR '' '' (s0 ''state'')) = Inr status0"
    and "monitor \<longrightarrow> status_service net a AcqPorts_TSTAT = Connected u"
  defines "r \<equiv> foldl (init_site_client net) (new_dict a s0, siteclients p @ [(a, AcqPorts_SITE0)]) nums"
  shows "Acq400_init net p a monitor =
           Some (Inr (next_dict p),
                 \<lparr> uuts = (uuts p)(a \<mapsto> next_dict p),
                   dicts = (dicts p)(next_dict p \<mapsto>
                     (fst r)\<lparr>sites := nums,
                             statmon := if monitor then Some (Statusmonitor_init (Some status0))
                                        else statmon (fst r)\<rparr>),
                   next_dict = Suc (next_dict p),
                   siteclients = snd r,
                   statusmonitors = statusmonitors p @ (if monitor then [a] else []) \<rparr>)"
  using assms(1-6) unfolding r_def
  by (cases "foldl (init_site_client net) (new_dict a s0, siteclients p @ [(a, AcqPorts_SITE0)]) nums")
     (simp add: Acq400_init_def)

lemma Acq400_init_registers:
  assumes "Acq400_init net p a monitor = Some (Inr obj, p1)"
  shows "uuts p1 a = Some obj"
  using assms
  by (auto simp: Acq400_init_def split: option.splits attempt.splits sum.splits if_splits prod.splits)

lemma Acq400_init_cached:
  "uuts p a = Some obj \<Longrightarrow> Acq400_init net p a monitor = Some (Inr obj, p)"
  by (simp add: Acq400_init_def)


lemma Acq400_init_fresh_conditions:
  assumes "Acq400_init net p a monitor = Some (Inr obj, p1)" and "uuts p a = None"
  shows "\<exists>s0 nums status0 u.
           site_service net a AcqPorts_SITE0 = Connected s0 \<and>
           distinct (tl (split_chr CHR '','' (s0 ''SITELIST''))) \<and>
           site_numbers (tl (split_chr CHR '','' (s0 ''SITELIST''))) = Inr nums \<and>
           py_ints (split_chr CHR '' '' (s0 ''state'')) = Inr status0 \<and>
           (monitor \<longrightarrow> status_service net a AcqPorts_TSTAT = Connected u)"
  using assms
  by (auto simp: Acq400_init_def split: attempt.splits sum.splits if_splits prod.splits)


text \<open>
  C8, as amended. The address is not registered, site 0 answers with a site list of
  distinct entries that parse and with a state that parses, and the status service answers
  when a monitor is asked for. Then the open succeeds whatever the other site services do:
  the declared sites are all in \<^verbatim>\<open>self.sites\<close>, and \<^verbatim>\<open>self.modules\<close> holds exactly the
  sites whose service answered before the join of its thread timed out, \<^verbatim>\<open>mod_count\<close>
  counting them. With one of K distinct sites not answering, K - 1 sites are populated;
  with none answering, the open succeeds all the same, with no module.
\<close>

theorem open_with_absent_sites:
  assumes "uuts p a = None"
    and "site_service net a AcqPorts_SITE0 = Connected s0"
    and "distinct (tl (split_chr CHR '','' (s0 ''SITELIST'')))"
    and "site_numbers (tl (split_chr CHR '','' (s0 ''SITELIST''))) = Inr nums"
    and "py_ints (split_chr CHR '' '' (s0 ''state'')) = Inr status0"
    and "monitor \<longrightarrow> status_service net a AcqPorts_TSTAT = Connected u"
  shows "\<exists>d p1. Acq400_init net p a monitor = Some (Inr (next_dict p), p1) \<and>
           dicts p1 (next_dict p) = Some d \<and> sites d = nums \<and>
           dom (modules d) = {n \<in> set nums. resolves net a n} \<and>
           mod_count d = int (length (filter (resolves net a) nums)) \<and>
           (distinct nums \<and> n0 \<in> set nums \<and> (\<forall>n\<in>set nums. resolves net a n \<longleftrightarrow> n \<noteq> n0) \<longrightarrow>
              card (dom (modules d)) = length nums - 1) \<and>
           ((\<forall>n\<in>set nums. \<not> resolves net a n) \<longrightarrow> modules d = Map.empty)"
proof -
  let ?st = "(new_dict a s0, siteclients p @ [(a, AcqPorts_SITE0)])"
  let ?r = "foldl (init_site_client net) ?st nums"
  let ?d = "(fst ?r)\<lparr>sites := nums,
               statmon := if monitor then Some (Statusmonitor_init (Some status0))
                          else statmon (fst ?r)\<rparr>"
  let ?p1 = "\<lparr> uuts = (uuts p)(a \<mapsto> next_dict p),
                dicts = (dicts p)(next_dict p \<mapsto> ?d),
                next_dict = Suc (next_dict p),
                siteclients = snd ?r,
                statusmonitors = statusmonitors p @ (if monitor then [a] else []) \<rparr>"
  have run: "Acq400_init net p a monitor = Some (Inr (next_dict p), ?p1)"
    by (rule Acq400_init_fresh [OF assms])
  have stored: "dicts ?p1 (next_dict p) = Some ?d" by simp
  from fold_sites_modules [of net ?st nums]
  have dom: "dom (modules ?d) = {n \<in> set nums. resolves net a n}"
    and count: "mod_count ?d = int (length (filter (resolves net a) nums))"
    by (simp_all add: new_dict_def)
  have one: "card (dom (modules ?d)) = length nums - 1"
    if "distinct nums \<and> n0 \<in> set nums \<and> (\<forall>n\<in>set nums. resolves net a n \<longleftrightarrow> n \<noteq> n0)"
  proof -
    from that have "{n \<in> set nums. resolves net a n} = set nums - {n0}" by auto
    with dom have "dom (modules ?d) = set nums - {n0}" by (rule trans)
    then have "card (dom (modules ?d)) = card (set nums - {n0})" by (rule arg_cong)
    also have "\<dots> = card (set nums) - 1" using that by simp
    also have "\<dots> = length nums - 1" using that by (simp add: distinct_card)
    finally show ?thesis .
  qed
  have none: "modules ?d = Map.empty" if "\<forall>n\<in>set nums. \<not> resolves net a n"
  proof -
    from that dom have "dom (modules ?d) = {}" by auto
    then show ?thesis by (simp only: dom_eq_empty_conv)
  qed
  have "sites ?d = nums" by simp
  with run stored dom count one none show ?thesis
    by blast
qed


text \<open>The strings of the examples, parsed.\<close>

lemma example_parses:
  "tl (split_chr CHR '','' ''216,1=424'') = [''1=424'']"
  "site_numbers [''1=424''] = Inr [1]"
  "tl (split_chr CHR '','' ''216,1=424,2=424'') = [''1=424'', ''2=424'']"
  "site_numbers [''1=424'', ''2=424''] = Inr [1, 2]"
  "py_ints (split_chr CHR '' '' ''0 0 1000 0 0'') = Inr [0, 0, 1000, 0, 0]"
  by code_simp+

text \<open>
  One declared site, whose service never answers: the open returns the object, with no
  module.
\<close>

theorem open_succeeds_without_sites:
  "Acq400_init
     \<lparr> site_service = (\<lambda>a port. if port = 4220
          then Connected (\<lambda>knob. if knob = ''SITELIST'' then ''216,1=424'' else ''0 0 1000 0 0'')
          else Silent),
       status_service = (\<lambda>a port. Connected ()), data_service = (\<lambda>a port. Refused) \<rparr>
     \<lparr> uuts = Map.empty, dicts = Map.empty, next_dict = 0, siteclients = [],
       statusmonitors = [] \<rparr>
     ''acq1001_070'' True
   = Some (Inr 0,
       \<lparr> uuts = [''acq1001_070'' \<mapsto> 0],
         dicts = [0 \<mapsto>
           \<lparr> uut = ''acq1001_070'', trace = 0, save_data = None,
             svc = [''s0'' \<mapsto> (\<lambda>knob. if knob = ''SITELIST'' then ''216,1=424'' else ''0 0 1000 0 0'')],
             modules = Map.empty, mod_count = 0, cal_eslo = [Cal_int 0], cal_eoff = [Cal_int 0],
             mb_clk_min = 4000000, awg_site = 0, sites = [1],
             statmon = Some (Statusmonitor_init (Some [0, 0, 1000, 0, 0])) \<rparr>],
         next_dict = 1, siteclients = [(''acq1001_070'', 4220)],
         statusmonitors = [''acq1001_070''] \<rparr>)"
proof -
  let ?s0 = "\<lambda>knob. if knob = ''SITELIST'' then ''216,1=424'' else ''0 0 1000 0 0''"
  let ?net = "\<lparr> site_service = (\<lambda>a port. if port = 4220 then Connected ?s0 else Silent),
       status_service = (\<lambda>a port. Connected ()), data_service = (\<lambda>a port. Refused) \<rparr>"
  let ?p = "\<lparr> uuts = Map.empty, dicts = Map.empty, next_dict = 0, siteclients = [],
       statusmonitors = [] \<rparr>"
  have k: "?s0 ''SITELIST'' = ''216,1=424''" "?s0 ''state'' = ''0 0 1000 0 0''"
    by simp_all
  have h: "uuts ?p ''acq1001_070'' = None"
    "site_service ?net ''acq1001_070'' AcqPorts_SITE0 = Connected ?s0"
    "distinct (tl (split_chr CHR '','' (?s0 ''SITELIST'')))"
    "site_numbers (tl (split_chr CHR '','' (?s0 ''SITELIST''))) = Inr [1]"
    "py_ints (split_chr CHR '' '' (?s0 ''state'')) = Inr [0, 0, 1000, 0, 0]"
    "True \<longrightarrow> status_service ?net ''acq1001_070'' AcqPorts_TSTAT = Connected ()"
    by (simp add: AcqPorts_SITE0_def, simp add: AcqPorts_SITE0_def,
        simp only: k example_parses, simp, simp_all only: k example_parses, simp)
  show ?thesis
    by (simp add: Acq400_init_fresh [OF h] init_site_client_def new_dict_def AcqPorts_SITE0_def)
qed

theorem open_with_absent_sites_witness:
  "\<exists>d p1.
     Acq400_init
       \<lparr> site_service = (\<lambda>a port. if port = 4220
            then Connected (\<lambda>knob. if knob = ''SITELIST'' then ''216,1=424,2=424'' else ''0 0 1000 0 0'')
            else if port = 4221 then Connected (\<lambda>knob. ''acq424elf'')
            else Silent),
         status_service = (\<lambda>a port. Connected ()), data_service = (\<lambda>a port. Refused) \<rparr>
       \<lparr> uuts = Map.empty, dicts = Map.empty, next_dict = 0, siteclients = [],
         statusmonitors = [] \<rparr>
       ''acq1001_070'' True = Some (Inr 0, p1) \<and>
     dicts p1 0 = Some d \<and> sites d = [1, 2] \<and> dom (modules d) = {1} \<and> mod_count d = 1 \<and>
     card (dom (modules d)) = 1"
proof -
  let ?s0 = "\<lambda>knob. if knob = ''SITELIST'' then ''216,1=424,2=424'' else ''0 0 1000 0 0''"
  let ?net = "\<lparr> site_service = (\<lambda>a port. if port = 4220 then Connected ?s0
            else if port = 4221 then Connected (\<lambda>knob. ''acq424elf'')
            else Silent),
       status_service = (\<lambda>a port. Connected ()), data_service = (\<lambda>a port. Refused) \<rparr>"
  let ?p = "\<lparr> uuts = Map.empty, dicts = Map.empty, next_dict = 0, siteclients = [],
       statusmonitors = [] \<rparr>"
  have k: "?s0 ''SITELIST'' = ''216,1=424,2=424''" "?s0 ''state'' = ''0 0 1000 0 0''"
    by simp_all
  have h: "uuts ?p ''acq1001_070'' = None"
    "site_service ?net ''acq1001_070'' AcqPorts_SITE0 = Connected ?s0"
    "distinct (tl (split_chr CHR '','' (?s0 ''SITELIST'')))"
    "site_numbers (tl (split_chr CHR '','' (?s0 ''SITELIST''))) = Inr [1, 2]"
    "py_ints (split_chr CHR '' '' (?s0 ''state'')) = Inr [0, 0, 1000, 0, 0]"
    "True \<longrightarrow> status_service ?net ''acq1001_070'' AcqPorts_TSTAT = Connected ()"
    by (simp add: AcqPorts_SITE0_def, simp add: AcqPorts_SITE0_def,
        simp only: k example_parses, simp, simp_all only: k example_parses, simp)
  have r: "resolves ?net ''acq1001_070'' 1" "\<not> resolves ?net ''acq1001_070'' 2"
    by (simp_all add: resolves_def AcqPorts_SITE0_def)
  then have s: "{n \<in> set [1, 2]. resolves ?net ''acq1001_070'' n} = {1}"
    "int (length (filter (resolves ?net ''acq1001_070'') [1, 2])) = 1"
    "distinct [1, 2 :: int] \<and> 2 \<in> set [1, 2 :: int] \<and>
       (\<forall>n\<in>set [1, 2]. resolves ?net ''acq1001_070'' n \<longleftrightarrow> n \<noteq> 2)"
    by auto
  from open_with_absent_sites [OF h, of 2] obtain d p1
    where "Acq400_init ?net ?p ''acq1001_070'' True = Some (Inr (next_dict ?p), p1)"
      "dicts p1 (next_dict ?p) = Some d" "sites d = [1, 2]"
      "dom (modules d) = {n \<in> set [1, 2]. resolves ?net ''acq1001_070'' n}"
      "mod_count d = int (length (filter (resolves ?net ''acq1001_070'') [1, 2]))"
      "distinct [1, 2 :: int] \<and> 2 \<in> set [1, 2 :: int] \<and>
         (\<forall>n\<in>set [1, 2]. resolves ?net ''acq1001_070'' n \<longleftrightarrow> n \<noteq> 2) \<longrightarrow>
       card (dom (modules d)) = length [1, 2 :: int] - 1"
    by blast
  with s have "Acq400_init ?net ?p ''acq1001_070'' True = Some (Inr 0, p1) \<and>
     dicts p1 0 = Some d \<and> sites d = [1, 2] \<and> dom (modules d) = {1} \<and> mod_count d = 1 \<and>
     card (dom (modules d)) = 1"
    by simp
  then show ?thesis by blast
qed


section \<open>Calibration: lemmas\<close>

lemma fetch_sites_modules [simp]: "modules (snd (fetch_sites d cs)) = modules d"
  by (induction cs arbitrary: d) (auto split: sum.splits option.splits)

lemma calibrated_Nil [simp]: "calibrated d [] = d"
  by (simp add: calibrated_def)

lemma fetch_sites_ok:
  "site_modules (modules d) cs = Some ms \<Longrightarrow> fetch_sites d cs = (Inr (), calibrated d ms)"
proof (induction cs arbitrary: d ms)
  case Nil
  then show ?case by simp
next
  case (Cons c cs)
  from Cons.prems obtain site m ms' where c: "py_int c = Inr site" "modules d site = Some m"
    and ms': "site_modules (modules d) cs = Some ms'" and ms: "ms = m # ms'"
    by (auto split: sum.splits option.splits)
  let ?d = "d\<lparr> cal_eslo := cal_eslo d @ cal_entries m ''AI_CAL_ESLO'',
                cal_eoff := cal_eoff d @ cal_entries m ''AI_CAL_EOFF'' \<rparr>"
  from ms' have "site_modules (modules ?d) cs = Some ms'" by simp
  from Cons.IH [OF this] c ms show ?case by (simp add: calibrated_def)
qed

lemma fetch_all_calibration_ok:
  assumes "aggregator_modules d = Some ms"
  shows "fetch_all_calibration d = (Inr (), calibrated d ms)"
  using assms
  by (auto simp: fetch_all_calibration_def aggregator_modules_def fetch_sites_ok split: sum.splits)

lemma chan2volts_populated:
  "length (cal_eslo d) \<noteq> 1 \<Longrightarrow> snd (chan2volts to_float np_multiply np_add d chan raw) = d"
  by (simp add: chan2volts_def split: sum.splits)

lemma chan2volts_calls_populated:
  "length (cal_eslo d) \<noteq> 1 \<Longrightarrow> chan2volts_calls to_float np_multiply np_add d calls = d"
  by (induction calls) (simp_all add: chan2volts_populated)

lemma chan2volts_first:
  assumes "length (cal_eslo d) = 1" and "fetch_all_calibration d = (Inr (), d1)"
    and "length (cal_eslo d1) \<noteq> 1"
  shows "chan2volts to_float np_multiply np_add d chan raw =
           (fst (chan2volts to_float np_multiply np_add d1 chan raw), d1)"
  using assms by (simp add: chan2volts_def split: sum.splits)

lemma chan2volts_value:
  assumes "length (cal_eslo d) \<noteq> 1" and "0 \<le> chan" and "chan < int (length (cal_eslo d))"
    and "chan < int (length (cal_eoff d))"
    and "to_float (cal_eslo d ! nat chan) = Inr eslo" and "to_float (cal_eoff d ! nat chan) = Inr eoff"
  shows "chan2volts to_float np_multiply np_add d chan raw =
           (Inr (np_add (np_multiply raw eslo) eoff), d)"
  using assms by (simp add: chan2volts_def py_getitem_def)

lemma length_concat_entries:
  "\<forall>m\<in>set ms. length (f m) = nch m \<Longrightarrow> length (concat (map f ms)) = sum_list (map nch ms)"
  by (induction ms) simp_all



text \<open>The strings of the example, parsed.\<close>

lemma example_calibration_parses:
  "py_index (split_chr CHR '' '' ''reg=0x00001001 sites=1 threshold=16383'') 1 = Some ''sites=1''"
  "py_index (split_chr CHR ''='' ''sites=1'') 1 = Some ''1''"
  "split_chr CHR '','' ''1'' = [''1'']"
  "py_int ''1'' = Inr 1"
  "map Cal_str (drop 3 (split_chr CHR '' '' ''eslo [1..2] = 3 4'')) = [Cal_str ''3'', Cal_str ''4'']"
  "map Cal_str (drop 3 (split_chr CHR '' '' ''eoff [1..2] = 5 6'')) = [Cal_str ''5'', Cal_str ''6'']"
  "py_int ''4'' = Inr 4"
  "py_int ''6'' = Inr 6"
  by code_simp+


end
